theory Spec2Isabelle
  imports Main "HOL-Library.Sublist"
begin

section \<open>JavaScript values the scheduler computes with\<close>

text \<open>
  The development embeds the buffer-aware, two-pass \<^verbatim>\<open>SchedulerService\<close> of
  \<^verbatim>\<open>src/server/services/schedulerService.ts\<close> (the second class body of the file,
  the one with \<^verbatim>\<open>hasCandidateTimeConflict\<close>).

  A JavaScript number is modelled as an integer or \<^verbatim>\<open>NaN\<close>: every number the
  engine computes comes from \<^verbatim>\<open>Number\<close> applied to a piece of a time string, from
  the integer options, and from \<open>+\<close>, \<open>-\<close>, \<open>*\<close>, \<open>%\<close> and \<^verbatim>\<open>Math.floor\<close>
  on those. Comparisons with \<^verbatim>\<open>NaN\<close> are false, arithmetic with it gives \<^verbatim>\<open>NaN\<close>.
\<close>

datatype jsnum = NaN | Num int

fun js_add :: "jsnum \<Rightarrow> jsnum \<Rightarrow> jsnum" where
  "js_add (Num a) (Num b) = Num (a + b)"
| "js_add _ _ = NaN"

fun js_sub :: "jsnum \<Rightarrow> jsnum \<Rightarrow> jsnum" where
  "js_sub (Num a) (Num b) = Num (a - b)"
| "js_sub _ _ = NaN"

fun js_mul :: "jsnum \<Rightarrow> jsnum \<Rightarrow> jsnum" where
  "js_mul (Num a) (Num b) = Num (a * b)"
| "js_mul _ _ = NaN"

fun js_lt :: "jsnum \<Rightarrow> jsnum \<Rightarrow> bool" where
  "js_lt (Num a) (Num b) = (a < b)"
| "js_lt _ _ = False"

fun js_le :: "jsnum \<Rightarrow> jsnum \<Rightarrow> bool" where
  "js_le (Num a) (Num b) = (a \<le> b)"
| "js_le _ _ = False"

fun js_gt :: "jsnum \<Rightarrow> jsnum \<Rightarrow> bool" where
  "js_gt (Num a) (Num b) = (a > b)"
| "js_gt _ _ = False"

fun js_ge :: "jsnum \<Rightarrow> jsnum \<Rightarrow> bool" where
  "js_ge (Num a) (Num b) = (a \<ge> b)"
| "js_ge _ _ = False"

text \<open>
  The remainder operator \<open>%\<close> truncates towards zero: the result has the sign of the
  dividend. The engine only divides by the positive constants 1440 and 60.
\<close>

definition js_rem :: "int \<Rightarrow> int \<Rightarrow> int" where
  "js_rem a b = (if 0 \<le> a then a mod \<bar>b\<bar> else - ((- a) mod \<bar>b\<bar>))"

fun js_rem_num :: "jsnum \<Rightarrow> int \<Rightarrow> jsnum" where
  "js_rem_num (Num a) b = Num (js_rem a b)"
| "js_rem_num NaN b = NaN"

text \<open>\<^verbatim>\<open>Math.floor(x / d)\<close> for an integer \<open>x\<close> and a positive integer \<open>d\<close>.\<close>

fun js_floor_div :: "jsnum \<Rightarrow> int \<Rightarrow> jsnum" where
  "js_floor_div (Num a) d = Num (a div d)"
| "js_floor_div NaN d = NaN"

subsection \<open>Numbers to strings and back\<close>

text \<open>Decimal digits by their character codes, 48 to 57.\<close>

definition digit_char :: "nat \<Rightarrow> char" where
  "digit_char n = char_of (48 + n)"

definition digit_val :: "char \<Rightarrow> nat option" where
  "digit_val c =
     (let k = of_char c :: nat in if 48 \<le> k \<and> k \<le> 57 then Some (k - 48) else None)"

definition is_digit :: "char \<Rightarrow> bool" where
  "is_digit c = (digit_val c \<noteq> None)"

text \<open>\<^verbatim>\<open>n.toString()\<close> for a number: decimal digits, a leading minus sign, or
  the text \<^verbatim>\<open>NaN\<close>.\<close>

fun str_nat :: "nat \<Rightarrow> string" where
  "str_nat n = (if n < 10 then [digit_char n] else str_nat (n div 10) @ [digit_char (n mod 10)])"

declare str_nat.simps [simp del]

definition str_int :: "int \<Rightarrow> string" where
  "str_int i = (if i < 0 then CHR ''-'' # str_nat (nat (- i)) else str_nat (nat i))"

fun toString :: "jsnum \<Rightarrow> string" where
  "toString NaN = ''NaN''"
| "toString (Num i) = str_int i"

text \<open>\<^verbatim>\<open>s.padStart(2, '0')\<close>.\<close>

definition padStart2 :: "string \<Rightarrow> string" where
  "padStart2 s = replicate (2 - length s) CHR ''0'' @ s"

text \<open>
  \<^verbatim>\<open>Number(s)\<close> on a string. The model is exact on the empty string (0) and on
  decimal integer literals with an optional sign; every other string is read as
  \<^verbatim>\<open>NaN\<close>. Strings that JavaScript reads as a number in another notation
  (surrounding white space, a fraction or exponent, a radix prefix, \<^verbatim>\<open>Infinity\<close>)
  are therefore outside the model, and so are integers too large for a double. On such
  a time string the engine and the model can differ: with \<^verbatim>\<open>Infinity\<close> as an hour
  the loop of \<^verbatim>\<open>findTimeSlotOverlap\<close> does not end, while the model reads
  \<^verbatim>\<open>NaN\<close> and finds no slot. \<^verbatim>\<open>isValidTimeFormat\<close> rejects all of them, and the
  route \<^verbatim>\<open>routes/scheduler.ts\<close> hands the engine times stored as \<^verbatim>\<open>HH:mm\<close>. Every
  concrete input below uses two-digit hours and minutes, where the model is exact.
\<close>

fun digits_value :: "nat \<Rightarrow> string \<Rightarrow> nat option" where
  "digits_value acc [] = Some acc"
| "digits_value acc (c # cs) =
     (case digit_val c of None \<Rightarrow> None | Some d \<Rightarrow> digits_value (10 * acc + d) cs)"

definition unsigned_value :: "string \<Rightarrow> jsnum" where
  "unsigned_value s =
     (if s = [] then NaN
      else case digits_value 0 s of None \<Rightarrow> NaN | Some n \<Rightarrow> Num (int n))"

definition js_neg :: "jsnum \<Rightarrow> jsnum" where
  "js_neg x = (case x of NaN \<Rightarrow> NaN | Num i \<Rightarrow> Num (- i))"

definition Number_js :: "string \<Rightarrow> jsnum" where
  "Number_js s =
     (case s of
        [] \<Rightarrow> Num 0
      | c # cs \<Rightarrow>
          if c = CHR ''-'' then js_neg (unsigned_value cs)
          else if c = CHR ''+'' then unsigned_value cs
          else unsigned_value s)"

text \<open>\<^verbatim>\<open>s.split(d)\<close> for a one-character separator: never the empty array.\<close>

fun split_on :: "char \<Rightarrow> string \<Rightarrow> string list" where
  "split_on d [] = [[]]"
| "split_on d (c # cs) =
     (if c = d then [] # split_on d cs
      else case split_on d cs of [] \<Rightarrow> [[c]] | p # ps \<Rightarrow> (c # p) # ps)"

section \<open>Time arithmetic\<close>

datatype error = TypeError | RangeError

text \<open>
  The object \<^verbatim>\<open>{hours, minutes, totalMinutes}\<close>. \<^verbatim>\<open>minutes\<close> is
  \<^verbatim>\<open>undefined\<close> (\<open>None\<close>) when the string has no colon; \<^verbatim>\<open>totalMinutes\<close>
  is then \<^verbatim>\<open>NaN\<close>.
\<close>

record time_parts =
  hours :: jsnum
  minutes :: "jsnum option"
  totalMinutes :: jsnum

definition parseTime :: "string \<Rightarrow> time_parts" where
  "parseTime timeStr =
     (case map Number_js (split_on CHR '':'' timeStr) of
        [] \<Rightarrow> \<lparr>hours = NaN, minutes = None, totalMinutes = NaN\<rparr>
      | [h] \<Rightarrow> \<lparr>hours = h, minutes = None, totalMinutes = NaN\<rparr>
      | h # m # _ \<Rightarrow>
          \<lparr>hours = h, minutes = Some m, totalMinutes = js_add (js_mul h (Num 60)) m\<rparr>)"

text \<open>\<^verbatim>\<open>formatTime\<close> throws a \<^verbatim>\<open>TypeError\<close> when \<^verbatim>\<open>minutes\<close> is
  \<^verbatim>\<open>undefined\<close>: it calls \<^verbatim>\<open>toString\<close> on it.\<close>

definition formatTime :: "time_parts \<Rightarrow> error + string" where
  "formatTime t =
     (case minutes t of
        None \<Rightarrow> Inl TypeError
      | Some m \<Rightarrow> Inr (padStart2 (toString (hours t)) @ '':'' @ padStart2 (toString m)))"

definition maxTime :: "time_parts \<Rightarrow> time_parts \<Rightarrow> time_parts" where
  "maxTime time1 time2 = (if js_ge (totalMinutes time1) (totalMinutes time2) then time1 else time2)"

definition minTime :: "time_parts \<Rightarrow> time_parts \<Rightarrow> time_parts" where
  "minTime time1 time2 = (if js_le (totalMinutes time1) (totalMinutes time2) then time1 else time2)"

definition timeDifference :: "time_parts \<Rightarrow> time_parts \<Rightarrow> jsnum" where
  "timeDifference start_t end_t =
     (if js_lt (totalMinutes end_t) (totalMinutes start_t)
      then js_sub (js_add (totalMinutes end_t) (Num 1440)) (totalMinutes start_t)
      else js_sub (totalMinutes end_t) (totalMinutes start_t))"

definition minutesToTime :: "jsnum \<Rightarrow> time_parts" where
  "minutesToTime mins =
     (let normalizedMinutes = js_rem_num mins 1440
      in \<lparr>hours = js_floor_div normalizedMinutes 60,
          minutes = Some (js_rem_num normalizedMinutes 60),
          totalMinutes = normalizedMinutes\<rparr>)"

definition addMinutesToTime :: "string \<Rightarrow> int \<Rightarrow> error + string" where
  "addMinutesToTime timeStr mins =
     formatTime (minutesToTime (js_add (totalMinutes (parseTime timeStr)) (Num mins)))"

section \<open>Data model\<close>

text \<open>
  \<^verbatim>\<open>TimeSlot\<close> is \<^verbatim>\<open>{date, start, end}\<close>; the fields carry the prefix
  \<open>slot_\<close> here. Of an \<^verbatim>\<open>Availability\<close> and a \<^verbatim>\<open>User\<close> the engine reads
  only the fields below; \<^verbatim>\<open>User.id\<close> is \<open>id_user\<close>, \<^verbatim>\<open>TimeSlotMatch.duration\<close> is
  \<open>match_duration\<close>.
\<close>

record timeslot =
  slot_date :: string
  slot_start :: string
  slot_end :: string

record availability =
  user_id :: string
  time_slots :: "timeslot list"

record user =
  id_user :: string
  name :: string
  email :: string

record scheduling_options =
  duration :: int
  bufferTime :: int
  businessHours :: "string \<times> string"
  preferredDays :: "int list"
  maxSuggestions :: int

record timeslot_match =
  date :: string
  startTime :: string
  endTime :: string
  match_duration :: int
  score :: int
  reasons :: "string list"
  interviewer_id :: "string option"
  interviewer_name :: "string option"

text \<open>
  A \<^verbatim>\<open>Map\<close> whose values are arrays, in insertion order of its keys:
  \<^verbatim>\<open>if (!m.has(k)) m.set(k, []); m.get(k).push(v)\<close>.
\<close>

fun map_push :: "('k \<times> 'v list) list \<Rightarrow> 'k \<Rightarrow> 'v \<Rightarrow> ('k \<times> 'v list) list" where
  "map_push [] k v = [(k, [v])]"
| "map_push ((k', vs) # m) k v =
     (if k' = k then (k', vs @ [v]) # m else (k', vs) # map_push m k v)"

text \<open>A loop whose body may throw and otherwise pushes some results: the first
  exception ends it.\<close>

fun collect_e :: "('a \<Rightarrow> error + 'b list) \<Rightarrow> 'a list \<Rightarrow> error + 'b list" where
  "collect_e f [] = Inr []"
| "collect_e f (x # xs) =
     (case f x of
        Inl e \<Rightarrow> Inl e
      | Inr ys \<Rightarrow> (case collect_e f xs of Inl e \<Rightarrow> Inl e | Inr zs \<Rightarrow> Inr (ys @ zs)))"

section \<open>Slot overlap finder\<close>

definition intervalMinutes :: "int \<Rightarrow> int" where
  "intervalMinutes availableDuration = min 15 (max 1 (availableDuration div 4))"

text \<open>The \<^verbatim>\<open>for\<close> loop of \<^verbatim>\<open>findTimeSlotOverlap\<close> over \<^verbatim>\<open>offset\<close>, with
  \<^verbatim>\<open>possibleSlots\<close> as accumulator. It runs only when \<^verbatim>\<open>availableDuration\<close> is
  a number: \<^verbatim>\<open>0 <= NaN\<close> is false.\<close>

function slot_loop ::
  "string \<Rightarrow> time_parts \<Rightarrow> time_parts \<Rightarrow> int \<Rightarrow> int \<Rightarrow> int \<Rightarrow> timeslot list
     \<Rightarrow> error + timeslot list" where
  "slot_loop d overlapStart overlapEnd requiredDuration availableDuration offset possibleSlots =
     (if offset \<le> availableDuration then
        (let slotStartTime = minutesToTime (js_add (totalMinutes overlapStart) (Num offset))
         in case formatTime slotStartTime of
              Inl e \<Rightarrow> Inl e
            | Inr startStr \<Rightarrow>
                (case addMinutesToTime startStr requiredDuration of
                   Inl e \<Rightarrow> Inl e
                 | Inr slotEndTime \<Rightarrow>
                     slot_loop d overlapStart overlapEnd requiredDuration availableDuration
                       (offset + intervalMinutes availableDuration)
                       (if js_le (totalMinutes (parseTime slotEndTime)) (totalMinutes overlapEnd)
                        then possibleSlots @
                          [\<lparr>slot_date = d, slot_start = startStr, slot_end = slotEndTime\<rparr>]
                        else possibleSlots)))
      else Inr possibleSlots)"
  by pat_completeness auto
termination
  by (relation "measure (\<lambda>(d, os, oe, rd, avail, offset, acc). nat (avail - offset + 1))")
     (auto simp: intervalMinutes_def)

declare slot_loop.simps [simp del]

definition findTimeSlotOverlap :: "timeslot \<Rightarrow> timeslot \<Rightarrow> int \<Rightarrow> error + timeslot list" where
  "findTimeSlotOverlap slot1 slot2 requiredDuration =
     (let start1 = parseTime (slot_start slot1);
          end1 = parseTime (slot_end slot1);
          start2 = parseTime (slot_start slot2);
          end2 = parseTime (slot_end slot2);
          overlapStart = maxTime start1 start2;
          overlapEnd = minTime end1 end2;
          overlapDuration = timeDifference overlapStart overlapEnd
      in if js_lt overlapDuration (Num requiredDuration) then Inr []
         else
           (case (case js_sub overlapDuration (Num requiredDuration) of
                    NaN \<Rightarrow> Inr []
                  | Num availableDuration \<Rightarrow>
                      slot_loop (slot_date slot1) overlapStart overlapEnd requiredDuration
                        availableDuration 0 []) of
              Inl e \<Rightarrow> Inl e
            | Inr possibleSlots \<Rightarrow>
                if possibleSlots = [] then
                  (case formatTime overlapStart of
                     Inl e \<Rightarrow> Inl e
                   | Inr startStr \<Rightarrow>
                       (case addMinutesToTime startStr requiredDuration of
                          Inl e \<Rightarrow> Inl e
                        | Inr slotEndTime \<Rightarrow>
                            Inr [\<lparr>slot_date = slot_date slot1, slot_start = startStr,
                                  slot_end = slotEndTime\<rparr>]))
                else Inr possibleSlots))"

definition candidateMap :: "availability list \<Rightarrow> (string \<times> timeslot list) list" where
  "candidateMap candidateAvailability =
     foldl (\<lambda>m slot. map_push m (slot_date slot) slot) []
       (concat (map time_slots candidateAvailability))"

definition findOverlappingSlots ::
  "availability list \<Rightarrow> availability list \<Rightarrow> scheduling_options \<Rightarrow> error + timeslot_match list" where
  "findOverlappingSlots candidateAvailability interviewerAvailability options =
     collect_e
       (\<lambda>interviewerSlot.
          case map_of (candidateMap candidateAvailability) (slot_date interviewerSlot) of
            None \<Rightarrow> Inr []
          | Some candidateSlots \<Rightarrow>
              collect_e
                (\<lambda>candidateSlot.
                   case findTimeSlotOverlap interviewerSlot candidateSlot (duration options) of
                     Inl e \<Rightarrow> Inl e
                   | Inr overlaps \<Rightarrow>
                       Inr (map (\<lambda>slot.
                              \<lparr>date = slot_date interviewerSlot,
                               startTime = slot_start slot,
                               endTime = slot_end slot,
                               match_duration = duration options,
                               score = 100,
                               reasons = [],
                               interviewer_id = None,
                               interviewer_name = None\<rparr>) overlaps))
                candidateSlots)
       (concat (map time_slots interviewerAvailability))"

section \<open>Multi-interviewer assigner\<close>

text \<open>\<^verbatim>\<open>options.bufferTime || 15\<close>: zero is falsy.\<close>

definition bufferOr15 :: "scheduling_options \<Rightarrow> int" where
  "bufferOr15 options = (if bufferTime options = 0 then 15 else bufferTime options)"

definition proposedSlot :: "timeslot_match \<Rightarrow> timeslot" where
  "proposedSlot slot = \<lparr>slot_date = date slot, slot_start = startTime slot, slot_end = endTime slot\<rparr>"

definition hasCandidateTimeConflict :: "timeslot \<Rightarrow> timeslot list \<Rightarrow> int \<Rightarrow> bool" where
  "hasCandidateTimeConflict proposed usedCandidateTimeSlots bufferMinutes =
     (let sameDaySlots = filter (\<lambda>slot. slot_date slot = slot_date proposed) usedCandidateTimeSlots
      in if sameDaySlots = [] then False
         else
           (let proposedStart = parseTime (slot_start proposed);
                proposedEnd = parseTime (slot_end proposed)
            in list_ex
                 (\<lambda>existingSlot.
                    let existingStart = parseTime (slot_start existingSlot);
                        existingEnd = parseTime (slot_end existingSlot);
                        existingEndWithBuffer = js_add (totalMinutes existingEnd) (Num bufferMinutes)
                    in js_lt (totalMinutes proposedStart) existingEndWithBuffer \<and>
                       js_gt (totalMinutes proposedEnd) (totalMinutes existingStart))
                 sameDaySlots))"

text \<open>The inline check of the second pass: \<^verbatim>\<open>allInterviews.some(...)\<close>.\<close>

definition conflictsWithScheduled :: "timeslot_match list \<Rightarrow> timeslot \<Rightarrow> scheduling_options \<Rightarrow> bool" where
  "conflictsWithScheduled allInterviews proposed options =
     list_ex
       (\<lambda>scheduledInterview.
          if date scheduledInterview \<noteq> slot_date proposed then False
          else
            (let scheduledStart = parseTime (startTime scheduledInterview);
                 scheduledEnd = parseTime (endTime scheduledInterview);
                 proposedStart = parseTime (slot_start proposed);
                 proposedEnd = parseTime (slot_end proposed);
                 bufferMinutes = bufferOr15 options;
                 scheduledEndWithBuffer = js_add (totalMinutes scheduledEnd) (Num bufferMinutes)
             in js_lt (totalMinutes proposedStart) scheduledEndWithBuffer \<and>
                js_gt (totalMinutes proposedEnd) (totalMinutes scheduledStart)))
       allInterviews"

definition interviewerName :: "user list option \<Rightarrow> string \<Rightarrow> string" where
  "interviewerName users interviewerId =
     (case (case users of None \<Rightarrow> None | Some us \<Rightarrow> find (\<lambda>u. id_user u = interviewerId) us) of
        Some interviewer \<Rightarrow> name interviewer @ '' ('' @ email interviewer @ '')''
      | None \<Rightarrow> ''Interviewer '' @ take 8 interviewerId)"

definition assign :: "user list option \<Rightarrow> string \<Rightarrow> timeslot_match \<Rightarrow> timeslot_match" where
  "assign users interviewerId slot =
     slot\<lparr>interviewer_id := Some interviewerId,
          interviewer_name := Some (interviewerName users interviewerId)\<rparr>"

definition interviewerMap :: "availability list \<Rightarrow> (string \<times> availability list) list" where
  "interviewerMap interviewerAvailability =
     foldl (\<lambda>m avail. map_push m (user_id avail) avail) [] interviewerAvailability"

text \<open>
  The state of both passes is the pair of \<^verbatim>\<open>allInterviews\<close> and
  \<^verbatim>\<open>usedCandidateTimeSlots\<close>. \<^verbatim>\<open>interviewerMap.get(id)\<close> of a key that is not
  there would be \<^verbatim>\<open>undefined\<close>, and \<^verbatim>\<open>findOverlappingSlots\<close> would throw on it.
\<close>

fun pass1 ::
  "availability list \<Rightarrow> (string \<times> availability list) list \<Rightarrow> scheduling_options
     \<Rightarrow> user list option \<Rightarrow> string list \<Rightarrow> timeslot_match list \<times> timeslot list
     \<Rightarrow> error + timeslot_match list \<times> timeslot list" where
  "pass1 cand imap options users [] st = Inr st"
| "pass1 cand imap options users (interviewerId # ids) (allInterviews, used) =
     (case map_of imap interviewerId of
        None \<Rightarrow> Inl TypeError
      | Some interviewerAvails \<Rightarrow>
          (case findOverlappingSlots cand interviewerAvails options of
             Inl e \<Rightarrow> Inl e
           | Inr overlappingSlots \<Rightarrow>
               (case find (\<lambda>slot. \<not> hasCandidateTimeConflict (proposedSlot slot) used
                                      (bufferOr15 options)) overlappingSlots of
                  None \<Rightarrow> pass1 cand imap options users ids (allInterviews, used)
                | Some slot \<Rightarrow>
                    pass1 cand imap options users ids
                      (allInterviews @ [assign users interviewerId slot],
                       used @ [proposedSlot slot]))))"

fun pass2 ::
  "availability list \<Rightarrow> (string \<times> availability list) list \<Rightarrow> scheduling_options
     \<Rightarrow> user list option \<Rightarrow> string list \<Rightarrow> timeslot_match list \<times> timeslot list
     \<Rightarrow> error + timeslot_match list \<times> timeslot list" where
  "pass2 cand imap options users [] st = Inr st"
| "pass2 cand imap options users (interviewerId # ids) (allInterviews, used) =
     (case map_of imap interviewerId of
        None \<Rightarrow> Inl TypeError
      | Some interviewerAvails \<Rightarrow>
          (case findOverlappingSlots cand interviewerAvails options of
             Inl e \<Rightarrow> Inl e
           | Inr overlappingSlots \<Rightarrow>
               (case find (\<lambda>slot. \<not> conflictsWithScheduled allInterviews (proposedSlot slot)
                                      options) overlappingSlots of
                  None \<Rightarrow> pass2 cand imap options users ids (allInterviews, used)
                | Some slot \<Rightarrow>
                    pass2 cand imap options users ids
                      (allInterviews @ [assign users interviewerId slot],
                       used @ [proposedSlot slot]))))"

definition unscheduledInterviewerIds :: "string list \<Rightarrow> timeslot_match list \<Rightarrow> string list" where
  "unscheduledInterviewerIds interviewerIds allInterviews =
     filter (\<lambda>i. Some i \<notin> set (map interviewer_id allInterviews)) interviewerIds"

definition findIndividualInterviews ::
  "availability list \<Rightarrow> availability list \<Rightarrow> scheduling_options \<Rightarrow> user list option
     \<Rightarrow> error + timeslot_match list" where
  "findIndividualInterviews candidateAvailability interviewerAvailability options users =
     (let imap = interviewerMap interviewerAvailability;
          interviewerIds = map fst imap
      in case pass1 candidateAvailability imap options users interviewerIds ([], []) of
           Inl e \<Rightarrow> Inl e
         | Inr (allInterviews, used) \<Rightarrow>
             (case pass2 candidateAvailability imap options users
                     (unscheduledInterviewerIds interviewerIds allInterviews)
                     (allInterviews, used) of
                Inl e \<Rightarrow> Inl e
              | Inr (allInterviews', used') \<Rightarrow> Inr allInterviews'))"

section \<open>Schedule response builder\<close>

text \<open>
  What the engine takes from its collaborators: the day the clock shows
  (\<^verbatim>\<open>new Date().toISOString().split('T')[0]\<close>), the conversion
  \<^verbatim>\<open>zonedTimeToUtc(s, tz).toISOString()\<close> and the long date
  \<^verbatim>\<open>format(parseISO(d), 'EEEE, MMMM do, yyyy')\<close>. The last two throw a
  \<^verbatim>\<open>RangeError\<close> on a date they cannot read. One invocation reads the same
  day from the clock every time.
\<close>

record env =
  todayIso :: string
  zonedTimeToUtcIso :: "string \<Rightarrow> string \<Rightarrow> error + string"
  formatLongDate :: "string \<Rightarrow> error + string"

record schedule_request =
  scheduler_id :: string
  timezone :: string
  interview_duration :: int
  candidate_availability :: "availability list"
  interviewer_availability :: "availability list"
  users :: "user list option"

text \<open>\<^verbatim>\<open>Partial<SchedulingOptions>\<close>: \<open>None\<close> is a field that is not there.\<close>

record partial_options =
  p_duration :: "int option"
  p_bufferTime :: "int option"
  p_businessHours :: "(string \<times> string) option"
  p_preferredDays :: "int list option"
  p_maxSuggestions :: "int option"

record available_slot =
  a_date :: string
  a_start_time :: string
  a_end_time :: string
  a_score :: int
  a_reasons :: "string list"
  a_scheduled_time :: string
  a_interviewer_id :: "string option"
  a_interviewer_name :: "string option"

record individual_interview =
  i_interviewer_id :: string
  i_interviewer_name :: string
  i_date :: string
  i_start_time :: string
  i_end_time :: string
  i_score :: int
  i_reasons :: "string list"
  i_scheduled_time :: string

record slot_summary =
  s_start :: string
  s_end :: string
  duration_minutes :: jsnum

record side_summary =
  total_interviewers :: "nat option"
  total_days :: nat
  total_slots :: nat
  availability_by_date :: "(string \<times> slot_summary list) list"

record availability_summary_t =
  candidate :: side_summary
  interviewers :: side_summary
  overlapping_days :: "string list"

record schedule_response =
  success :: bool
  scheduled_time :: "string option"
  message :: string
  suggested_times :: "string list option"
  all_available_slots :: "available_slot list option"
  availability_summary :: "availability_summary_t option"
  individual_interviews :: "individual_interview list option"

definition defaultOptions :: scheduling_options where
  "defaultOptions =
     \<lparr>duration = 60, bufferTime = 30, businessHours = (''09:00'', ''17:00''),
      preferredDays = [1, 2, 3, 4, 5], maxSuggestions = 5\<rparr>"

text \<open>\<^verbatim>\<open>{...this.defaultOptions, ...options, duration: request.interview_duration ||
  this.defaultOptions.duration}\<close>.\<close>

definition mergeOptions :: "schedule_request \<Rightarrow> partial_options \<Rightarrow> scheduling_options" where
  "mergeOptions request options =
     \<lparr>duration = (if interview_duration request = 0 then duration defaultOptions
                  else interview_duration request),
      bufferTime = (case p_bufferTime options of None \<Rightarrow> bufferTime defaultOptions | Some b \<Rightarrow> b),
      businessHours =
        (case p_businessHours options of None \<Rightarrow> businessHours defaultOptions | Some b \<Rightarrow> b),
      preferredDays =
        (case p_preferredDays options of None \<Rightarrow> preferredDays defaultOptions | Some d \<Rightarrow> d),
      maxSuggestions =
        (case p_maxSuggestions options of None \<Rightarrow> maxSuggestions defaultOptions | Some n \<Rightarrow> n)\<rparr>"

text \<open>
  \<^verbatim>\<open>createScheduledTime\<close> writes the day of the clock into \<^verbatim>\<open>slot.date\<close> when
  the date is the empty string, and returns the instant. \<open>fixDate\<close> is the slot after
  the call.
\<close>

definition fixDate :: "env \<Rightarrow> timeslot_match \<Rightarrow> timeslot_match" where
  "fixDate ev slot = (if date slot = [] then slot\<lparr>date := todayIso ev\<rparr> else slot)"

definition timeWithSeconds :: "string \<Rightarrow> string" where
  "timeWithSeconds t =
     (if CHR '':'' \<in> set t \<and> length (split_on CHR '':'' t) = 2 then t @ '':00'' else t)"

definition createScheduledTime :: "env \<Rightarrow> timeslot_match \<Rightarrow> string \<Rightarrow> error + timeslot_match \<times> string" where
  "createScheduledTime ev slot tz =
     (let slot' = fixDate ev slot;
          dateTimeString = date slot' @ ''T'' @ timeWithSeconds (startTime slot')
      in case zonedTimeToUtcIso ev dateTimeString tz of
           Inl e \<Rightarrow> Inl e
         | Inr instant \<Rightarrow> Inr (slot', instant))"

text \<open>\<^verbatim>\<open>xs.join(', ')\<close>.\<close>

fun join_comma :: "string list \<Rightarrow> string" where
  "join_comma [] = []"
| "join_comma [x] = x"
| "join_comma (x # y # ys) = x @ '', '' @ join_comma (y # ys)"

definition formatScheduleMessage :: "env \<Rightarrow> timeslot_match \<Rightarrow> string \<Rightarrow> error + string" where
  "formatScheduleMessage ev slot tz =
     (case formatLongDate ev (date slot) of
        Inl e \<Rightarrow> Inl e
      | Inr d \<Rightarrow>
          Inr (''Interview scheduled for '' @ d @ '' at '' @
               (startTime slot @ '' - '' @ endTime slot) @ '' '' @ tz @
               (if reasons slot \<noteq> [] then '' ('' @ join_comma (reasons slot) @ '')'' else [])))"

definition formatMultipleInterviewsMessage ::
  "env \<Rightarrow> timeslot_match list \<Rightarrow> string \<Rightarrow> int \<Rightarrow> error + string" where
  "formatMultipleInterviewsMessage ev interviews tz buffer =
     (case interviews of
        [] \<Rightarrow> Inr ''No interviews scheduled''
      | [i] \<Rightarrow> formatScheduleMessage ev i tz
      | firstInterview # _ \<Rightarrow>
          (case formatLongDate ev (date firstInterview) of
             Inl e \<Rightarrow> Inl e
           | Inr d \<Rightarrow>
               Inr (str_nat (length interviews) @ '' individual interviews scheduled for '' @ d @
                    '' with '' @ str_int buffer @
                    ''-minute breaks between sessions. Check details below for specific times.'')))"

text \<open>Insertion into a \<^verbatim>\<open>Set\<close>, in insertion order.\<close>

definition set_add :: "'a list \<Rightarrow> 'a \<Rightarrow> 'a list" where
  "set_add xs x = (if x \<in> set xs then xs else xs @ [x])"

definition slotDates :: "availability list \<Rightarrow> string list" where
  "slotDates avails = foldl set_add [] (map slot_date (concat (map time_slots avails)))"

definition findOverlappingDays :: "availability list \<Rightarrow> availability list \<Rightarrow> string list" where
  "findOverlappingDays candidateAvailability interviewerAvailability =
     filter (\<lambda>d. d \<in> set (slotDates interviewerAvailability)) (slotDates candidateAvailability)"

definition dateMap :: "availability list \<Rightarrow> (string \<times> slot_summary list) list" where
  "dateMap avails =
     foldl (\<lambda>m slot. map_push m (slot_date slot)
              \<lparr>s_start = slot_start slot, s_end = slot_end slot,
               duration_minutes =
                 timeDifference (parseTime (slot_start slot)) (parseTime (slot_end slot))\<rparr>)
       [] (concat (map time_slots avails))"

definition generateAvailabilitySummary :: "schedule_request \<Rightarrow> availability_summary_t" where
  "generateAvailabilitySummary request =
     \<lparr>candidate =
        \<lparr>total_interviewers = None,
         total_days = length (dateMap (candidate_availability request)),
         total_slots = length (concat (map time_slots (candidate_availability request))),
         availability_by_date = dateMap (candidate_availability request)\<rparr>,
      interviewers =
        \<lparr>total_interviewers = Some (length (interviewer_availability request)),
         total_days = length (dateMap (interviewer_availability request)),
         total_slots = length (concat (map time_slots (interviewer_availability request))),
         availability_by_date = dateMap (interviewer_availability request)\<rparr>,
      overlapping_days =
        findOverlappingDays (candidate_availability request) (interviewer_availability request)\<rparr>"

text \<open>A \<^verbatim>\<open>map\<close> whose callback may throw.\<close>

fun map_e :: "('a \<Rightarrow> error + 'b) \<Rightarrow> 'a list \<Rightarrow> error + 'b list" where
  "map_e f [] = Inr []"
| "map_e f (x # xs) =
     (case f x of
        Inl e \<Rightarrow> Inl e
      | Inr y \<Rightarrow> (case map_e f xs of Inl e \<Rightarrow> Inl e | Inr ys \<Rightarrow> Inr (y # ys)))"

text \<open>The end index of \<^verbatim>\<open>xs.slice(1, e)\<close> on an array of length \<open>len\<close>.\<close>

definition sliceEnd :: "int \<Rightarrow> nat \<Rightarrow> nat" where
  "sliceEnd e len = (if e < 0 then nat (max (int len + e) 0) else min (nat e) len)"

text \<open>\<^verbatim>\<open>x || d\<close> on a string that may be missing.\<close>

definition orDefault :: "string option \<Rightarrow> string \<Rightarrow> string" where
  "orDefault x d = (case x of None \<Rightarrow> d | Some s \<Rightarrow> if s = [] then d else s)"

definition noOverlapResponse :: schedule_response where
  "noOverlapResponse =
     \<lparr>success = False, scheduled_time = None,
      message = ''No overlapping time slots found between candidate and any interviewer.'',
      suggested_times = None, all_available_slots = None, availability_summary = None,
      individual_interviews = None\<rparr>"

definition failedResponse :: schedule_response where
  "failedResponse =
     \<lparr>success = False, scheduled_time = None,
      message = ''Failed to generate schedule. Please try again or contact support.'',
      suggested_times = Some [], all_available_slots = None, availability_summary = None,
      individual_interviews = None\<rparr>"

text \<open>
  The body of the \<^verbatim>\<open>try\<close> block. The interviews are objects that
  \<^verbatim>\<open>createScheduledTime\<close> updates in place, so the list is threaded through the calls
  in the order the object literal evaluates them: the primary interview, the message,
  \<^verbatim>\<open>suggested_times\<close>, \<^verbatim>\<open>all_available_slots\<close> (which reads \<^verbatim>\<open>slot.date\<close> before
  its own call), the summary, \<^verbatim>\<open>individual_interviews\<close>.
\<close>

definition availableSlotEntry ::
  "env \<Rightarrow> string \<Rightarrow> timeslot_match \<Rightarrow> error + timeslot_match \<times> available_slot" where
  "availableSlotEntry ev tz slot =
     (case createScheduledTime ev slot tz of
        Inl e \<Rightarrow> Inl e
      | Inr (slot', instant) \<Rightarrow>
          Inr (slot',
               \<lparr>a_date = date slot,
                a_start_time = startTime slot,
                a_end_time = endTime slot,
                a_score = score slot,
                a_reasons = reasons slot,
                a_scheduled_time = instant,
                a_interviewer_id = interviewer_id slot,
                a_interviewer_name = interviewer_name slot\<rparr>))"

definition individualEntry :: "env \<Rightarrow> string \<Rightarrow> timeslot_match \<Rightarrow> error + individual_interview" where
  "individualEntry ev tz interview =
     (case createScheduledTime ev interview tz of
        Inl e \<Rightarrow> Inl e
      | Inr (interview', instant) \<Rightarrow>
          Inr \<lparr>i_interviewer_id = orDefault (interviewer_id interview) ''unknown'',
               i_interviewer_name = orDefault (interviewer_name interview) ''Unknown Interviewer'',
               i_date = date interview,
               i_start_time = startTime interview,
               i_end_time = endTime interview,
               i_score = score interview,
               i_reasons = reasons interview,
               i_scheduled_time = instant\<rparr>)"

definition successResponse ::
  "env \<Rightarrow> schedule_request \<Rightarrow> scheduling_options \<Rightarrow> string \<Rightarrow> timeslot_match list
     \<Rightarrow> error + schedule_response" where
  "successResponse ev request opts scheduledTime l1 =
     (case formatMultipleInterviewsMessage ev l1 (timezone request) (bufferOr15 opts) of
        Inl e \<Rightarrow> Inl e
      | Inr msg \<Rightarrow>
          (let hi = sliceEnd (maxSuggestions opts) (length l1)
           in case map_e (\<lambda>slot. createScheduledTime ev slot (timezone request))
                     (drop 1 (take hi l1)) of
                Inl e \<Rightarrow> Inl e
              | Inr suggested \<Rightarrow>
                  (let l2 = take 1 l1 @ map fst suggested @ drop (max 1 hi) l1
                   in case map_e (availableSlotEntry ev (timezone request)) l2 of
                        Inl e \<Rightarrow> Inl e
                      | Inr available \<Rightarrow>
                          (case map_e (individualEntry ev (timezone request))
                                  (map fst available) of
                             Inl e \<Rightarrow> Inl e
                           | Inr individual \<Rightarrow>
                               Inr \<lparr>success = True,
                                    scheduled_time = Some scheduledTime,
                                    message = msg,
                                    suggested_times = Some (map snd suggested),
                                    all_available_slots = Some (map snd available),
                                    availability_summary =
                                      Some (generateAvailabilitySummary request),
                                    individual_interviews = Some individual\<rparr>))))"

definition tryBody :: "env \<Rightarrow> schedule_request \<Rightarrow> partial_options \<Rightarrow> error + schedule_response" where
  "tryBody ev request options =
     (let opts = mergeOptions request options
      in case findIndividualInterviews (candidate_availability request)
                (interviewer_availability request) opts (users request) of
           Inl e \<Rightarrow> Inl e
         | Inr [] \<Rightarrow> Inr noOverlapResponse
         | Inr (primaryInterview # others) \<Rightarrow>
             (case createScheduledTime ev primaryInterview (timezone request) of
                Inl e \<Rightarrow> Inl e
              | Inr (primary', scheduledTime) \<Rightarrow>
                  successResponse ev request opts scheduledTime (primary' # others)))"

text \<open>\<^verbatim>\<open>findOptimalSchedule\<close>: the \<^verbatim>\<open>catch\<close> turns every exception of the body
  into the fixed failure response.\<close>

definition findOptimalSchedule :: "env \<Rightarrow> schedule_request \<Rightarrow> partial_options \<Rightarrow> schedule_response" where
  "findOptimalSchedule ev request options =
     (case tryBody ev request options of
        Inl e \<Rightarrow> failedResponse
      | Inr response \<Rightarrow> response)"

section \<open>Availability validator\<close>

text \<open>The regular expressions \<^verbatim>\<open>/^\d{4}-\d{2}-\d{2}$/\<close> and
  \<^verbatim>\<open>/^([01]?[0-9]|2[0-3]):[0-5][0-9]$/\<close>.\<close>

definition isValidDateFormat :: "string \<Rightarrow> bool" where
  "isValidDateFormat s =
     (case s of
        [y1, y2, y3, y4, d1, m1, m2, d2, a1, a2] \<Rightarrow>
          is_digit y1 \<and> is_digit y2 \<and> is_digit y3 \<and> is_digit y4 \<and> d1 = CHR ''-'' \<and>
          is_digit m1 \<and> is_digit m2 \<and> d2 = CHR ''-'' \<and> is_digit a1 \<and> is_digit a2
      | _ \<Rightarrow> False)"

definition isValidTimeFormat :: "string \<Rightarrow> bool" where
  "isValidTimeFormat s =
     (case s of
        [h, c, m1, m2] \<Rightarrow>
          is_digit h \<and> c = CHR '':'' \<and> m1 \<in> set ''012345'' \<and> is_digit m2
      | [h1, h2, c, m1, m2] \<Rightarrow>
          ((h1 \<in> set ''01'' \<and> is_digit h2) \<or> (h1 = CHR ''2'' \<and> h2 \<in> set ''0123'')) \<and>
          c = CHR '':'' \<and> m1 \<in> set ''012345'' \<and> is_digit m2
      | _ \<Rightarrow> False)"

definition dateFormatError :: "nat \<Rightarrow> nat \<Rightarrow> timeslot \<Rightarrow> string" where
  "dateFormatError index slotIndex slot =
     ''Invalid date format for availability '' @ str_nat index @ '' slot '' @ str_nat slotIndex @
     '': '' @ slot_date slot"

definition timeFormatError :: "nat \<Rightarrow> nat \<Rightarrow> timeslot \<Rightarrow> string" where
  "timeFormatError index slotIndex slot =
     ''Invalid time format for availability '' @ str_nat index @ '' slot '' @ str_nat slotIndex @
     '': '' @ slot_start slot @ ''-'' @ slot_end slot"

definition timeRangeError :: "nat \<Rightarrow> nat \<Rightarrow> string" where
  "timeRangeError index slotIndex =
     ''Invalid time range for availability '' @ str_nat index @ '' slot '' @ str_nat slotIndex @
     '': start time must be before end time''"

text \<open>The three checks on one slot, in the order of the source.\<close>

definition slotErrors :: "nat \<Rightarrow> nat \<Rightarrow> timeslot \<Rightarrow> string list" where
  "slotErrors index slotIndex slot =
     (if \<not> isValidDateFormat (slot_date slot) then [dateFormatError index slotIndex slot] else []) @
     (if \<not> isValidTimeFormat (slot_start slot) \<or> \<not> isValidTimeFormat (slot_end slot)
      then [timeFormatError index slotIndex slot] else []) @
     (if js_ge (hours (parseTime (slot_start slot))) (hours (parseTime (slot_end slot)))
      then [timeRangeError index slotIndex] else [])"

definition availErrors :: "nat \<Rightarrow> availability \<Rightarrow> string list" where
  "availErrors index avail =
     (if time_slots avail = []
      then [''No time slots provided for availability at index '' @ str_nat index]
      else concat (map (\<lambda>(slotIndex, slot). slotErrors index slotIndex slot)
                     (enumerate 0 (time_slots avail))))"

record validation =
  valid :: bool
  errors :: "string list"

definition validateAvailability :: "availability list \<Rightarrow> validation" where
  "validateAvailability avails =
     (if avails = [] then \<lparr>valid = False, errors = [''No availability provided'']\<rparr>
      else
        (let errs = concat (map (\<lambda>(index, avail). availErrors index avail) (enumerate 0 avails))
         in \<lparr>valid = (errs = []), errors = errs\<rparr>))"

section \<open>The request as objects in a store\<close>

text \<open>
  For the question whether the engine writes to its input, the objects whose fields the
  engine can write are placed in a store: a list of objects, the address of an object
  being its index. A request refers to its \<^verbatim>\<open>TimeSlot\<close> objects by address. An
  object literal allocates at the end of the store; the interviews
  \<^verbatim>\<open>findIndividualInterviews\<close> returns are such objects
  (\<^verbatim>\<open>{...slot, interviewer_id, interviewer_name}\<close>). The only assignment to a field
  in the engine is \<^verbatim>\<open>slot.date = fallbackDate\<close> in \<^verbatim>\<open>createScheduledTime\<close>.
  Arrays stay values: every \<^verbatim>\<open>push\<close> of the engine is on an array the engine has
  created itself.
\<close>

datatype obj = SlotObj timeslot | MatchObj timeslot_match

type_synonym store = "obj list"

record availability_ref =
  ref_user_id :: string
  ref_time_slots :: "nat list"

record request_ref =
  ref_scheduler_id :: string
  ref_timezone :: string
  ref_interview_duration :: int
  ref_candidate_availability :: "availability_ref list"
  ref_interviewer_availability :: "availability_ref list"
  ref_users :: "user list option"

text \<open>Reading an address that holds no object of the expected kind does not happen in a
  well-formed store; the reads below then give an object of empty fields.\<close>

definition readSlot :: "store \<Rightarrow> nat \<Rightarrow> timeslot" where
  "readSlot h a =
     (case (if a < length h then Some (h ! a) else None) of
        Some (SlotObj s) \<Rightarrow> s
      | _ \<Rightarrow> \<lparr>slot_date = [], slot_start = [], slot_end = []\<rparr>)"

definition readMatch :: "store \<Rightarrow> nat \<Rightarrow> timeslot_match" where
  "readMatch h a =
     (case (if a < length h then Some (h ! a) else None) of
        Some (MatchObj m) \<Rightarrow> m
      | _ \<Rightarrow> \<lparr>date = [], startTime = [], endTime = [], match_duration = 0, score = 0,
               reasons = [], interviewer_id = None, interviewer_name = None\<rparr>)"

definition derefAvailability :: "store \<Rightarrow> availability_ref \<Rightarrow> availability" where
  "derefAvailability h a =
     \<lparr>user_id = ref_user_id a, time_slots = map (readSlot h) (ref_time_slots a)\<rparr>"

definition derefRequest :: "store \<Rightarrow> request_ref \<Rightarrow> schedule_request" where
  "derefRequest h r =
     \<lparr>scheduler_id = ref_scheduler_id r, timezone = ref_timezone r,
      interview_duration = ref_interview_duration r,
      candidate_availability = map (derefAvailability h) (ref_candidate_availability r),
      interviewer_availability = map (derefAvailability h) (ref_interviewer_availability r),
      users = ref_users r\<rparr>"

text \<open>The interviews of the assigner become objects at fresh addresses.\<close>

definition allocMatches :: "timeslot_match list \<Rightarrow> store \<Rightarrow> nat list \<times> store" where
  "allocMatches ms h = ([length h ..< length h + length ms], h @ map MatchObj ms)"

text \<open>\<^verbatim>\<open>createScheduledTime\<close> on the object at an address: the write happens before
  the conversion can throw.\<close>

definition createScheduledTime_s :: "env \<Rightarrow> string \<Rightarrow> nat \<Rightarrow> store \<Rightarrow> (error + string) \<times> store" where
  "createScheduledTime_s ev tz a h =
     (case (if a < length h then Some (h ! a) else None) of
        Some (MatchObj slot) \<Rightarrow>
          (let h' = (if date slot = [] then h[a := MatchObj (slot\<lparr>date := todayIso ev\<rparr>)] else h);
               slot' = readMatch h' a;
               dateTimeString = date slot' @ ''T'' @ timeWithSeconds (startTime slot')
           in (zonedTimeToUtcIso ev dateTimeString tz, h'))
      | _ \<Rightarrow> (Inl TypeError, h))"

text \<open>A \<^verbatim>\<open>map\<close> over addresses whose callback may write and may throw.\<close>

fun mapS :: "(nat \<Rightarrow> store \<Rightarrow> (error + 'b) \<times> store) \<Rightarrow> nat list \<Rightarrow> store
    \<Rightarrow> (error + 'b list) \<times> store" where
  "mapS f [] h = (Inr [], h)"
| "mapS f (a # as) h =
     (case f a h of
        (Inl e, h') \<Rightarrow> (Inl e, h')
      | (Inr y, h') \<Rightarrow>
          (case mapS f as h' of
             (Inl e, h'') \<Rightarrow> (Inl e, h'')
           | (Inr ys, h'') \<Rightarrow> (Inr (y # ys), h'')))"

definition availableSlotEntry_s ::
  "env \<Rightarrow> string \<Rightarrow> nat \<Rightarrow> store \<Rightarrow> (error + available_slot) \<times> store" where
  "availableSlotEntry_s ev tz a h =
     (let slot = readMatch h a
      in case createScheduledTime_s ev tz a h of
           (Inl e, h') \<Rightarrow> (Inl e, h')
         | (Inr instant, h') \<Rightarrow>
             (Inr \<lparr>a_date = date slot,
                   a_start_time = startTime slot,
                   a_end_time = endTime slot,
                   a_score = score slot,
                   a_reasons = reasons slot,
                   a_scheduled_time = instant,
                   a_interviewer_id = interviewer_id slot,
                   a_interviewer_name = interviewer_name slot\<rparr>, h'))"

definition individualEntry_s ::
  "env \<Rightarrow> string \<Rightarrow> nat \<Rightarrow> store \<Rightarrow> (error + individual_interview) \<times> store" where
  "individualEntry_s ev tz a h =
     (let interview = readMatch h a
      in case createScheduledTime_s ev tz a h of
           (Inl e, h') \<Rightarrow> (Inl e, h')
         | (Inr instant, h') \<Rightarrow>
             (Inr \<lparr>i_interviewer_id = orDefault (interviewer_id interview) ''unknown'',
                   i_interviewer_name = orDefault (interviewer_name interview) ''Unknown Interviewer'',
                   i_date = date interview,
                   i_start_time = startTime interview,
                   i_end_time = endTime interview,
                   i_score = score interview,
                   i_reasons = reasons interview,
                   i_scheduled_time = instant\<rparr>, h'))"

definition successResponse_s ::
  "env \<Rightarrow> request_ref \<Rightarrow> scheduling_options \<Rightarrow> string \<Rightarrow> nat list \<Rightarrow> store
     \<Rightarrow> schedule_response \<times> store" where
  "successResponse_s ev r opts scheduledTime addrs h2 =
     (case formatMultipleInterviewsMessage ev (map (readMatch h2) addrs) (ref_timezone r)
             (bufferOr15 opts) of
        Inl e \<Rightarrow> (failedResponse, h2)
      | Inr msg \<Rightarrow>
          (case mapS (createScheduledTime_s ev (ref_timezone r))
                  (drop 1 (take (sliceEnd (maxSuggestions opts) (length addrs)) addrs)) h2 of
             (Inl e, h3) \<Rightarrow> (failedResponse, h3)
           | (Inr suggested, h3) \<Rightarrow>
               (case mapS (availableSlotEntry_s ev (ref_timezone r)) addrs h3 of
                  (Inl e, h4) \<Rightarrow> (failedResponse, h4)
                | (Inr available, h4) \<Rightarrow>
                    (case mapS (individualEntry_s ev (ref_timezone r)) addrs h4 of
                       (Inl e, h5) \<Rightarrow> (failedResponse, h5)
                     | (Inr individual, h5) \<Rightarrow>
                         (\<lparr>success = True,
                           scheduled_time = Some scheduledTime,
                           message = msg,
                           suggested_times = Some suggested,
                           all_available_slots = Some available,
                           availability_summary =
                             Some (generateAvailabilitySummary (derefRequest h4 r)),
                           individual_interviews = Some individual\<rparr>, h5)))))"

text \<open>\<^verbatim>\<open>findOptimalSchedule\<close> with the store: the response and the store after the
  call, also when the body has thrown.\<close>

definition findOptimalSchedule_s ::
  "env \<Rightarrow> request_ref \<Rightarrow> partial_options \<Rightarrow> store \<Rightarrow> schedule_response \<times> store" where
  "findOptimalSchedule_s ev r options h =
     (let request = derefRequest h r; opts = mergeOptions request options
      in case findIndividualInterviews (candidate_availability request)
                (interviewer_availability request) opts (users request) of
           Inl e \<Rightarrow> (failedResponse, h)
         | Inr individualInterviews \<Rightarrow>
             (case allocMatches individualInterviews h of
                ([], h1) \<Rightarrow> (noOverlapResponse, h1)
              | (primaryInterview # others, h1) \<Rightarrow>
                  (case createScheduledTime_s ev (ref_timezone r) primaryInterview h1 of
                     (Inl e, h2) \<Rightarrow> (failedResponse, h2)
                   | (Inr scheduledTime, h2) \<Rightarrow>
                       successResponse_s ev r opts scheduledTime (primaryInterview # others) h2)))"

section \<open>Notions the properties are stated with\<close>

text \<open>The minute of the day \<^verbatim>\<open>parseTime\<close> reads from a time string.\<close>

definition minuteOfDay :: "string \<Rightarrow> jsnum" where
  "minuteOfDay t = totalMinutes (parseTime t)"

text \<open>
  The conflict test in the words of the specification: a proposed interval \<open>[s1, e1)\<close>
  conflicts with an existing interval \<open>[s2, e2)\<close> iff \<open>s1 < e2 + buffer\<close> and
  \<open>e1 > s2\<close>.
\<close>

definition intervalsConflict :: "jsnum \<Rightarrow> jsnum \<Rightarrow> jsnum \<Rightarrow> jsnum \<Rightarrow> int \<Rightarrow> bool" where
  "intervalsConflict s1 e1 s2 e2 buffer = (js_lt s1 (js_add e2 (Num buffer)) \<and> js_gt e1 s2)"

definition slotsConflict :: "int \<Rightarrow> timeslot \<Rightarrow> timeslot \<Rightarrow> bool" where
  "slotsConflict buffer proposed existing =
     (slot_date existing = slot_date proposed \<and>
      intervalsConflict (minuteOfDay (slot_start proposed)) (minuteOfDay (slot_end proposed))
        (minuteOfDay (slot_start existing)) (minuteOfDay (slot_end existing)) buffer)"

text \<open>Each slot of the list is free of conflicts with the slots before it.\<close>

fun conflictFree :: "int \<Rightarrow> timeslot list \<Rightarrow> bool" where
  "conflictFree b [] = True"
| "conflictFree b (x # xs) = (conflictFree b xs \<and> (\<forall>y\<in>set xs. \<not> slotsConflict b y x))"

text \<open>An entry of \<^verbatim>\<open>individual_interviews\<close> shows the date and times of an interview.\<close>

definition sameTimes :: "timeslot_match \<Rightarrow> individual_interview \<Rightarrow> bool" where
  "sameTimes m iv =
     (i_date iv = date m \<and> i_start_time iv = startTime m \<and> i_end_time iv = endTime m)"

text \<open>The interviewer ids in the order in which the input first shows them.\<close>

definition encounterOrder :: "availability list \<Rightarrow> string list" where
  "encounterOrder interviewerAvailability = foldl set_add [] (map user_id interviewerAvailability)"

text \<open>A time string \<^verbatim>\<open>HH:MM\<close>: two digits each, hours up to 23, minutes up to 59.\<close>

definition isHHMM :: "string \<Rightarrow> bool" where
  "isHHMM s =
     (case s of
        [c1, c2, c3, c4, c5] \<Rightarrow>
          c3 = CHR '':'' \<and>
          (case (digit_val c1, digit_val c2, digit_val c4, digit_val c5) of
             (Some a, Some b, Some c, Some d) \<Rightarrow> 10 * a + b \<le> 23 \<and> 10 * c + d \<le> 59
           | _ \<Rightarrow> False)
      | _ \<Rightarrow> False)"

text \<open>The string \<^verbatim>\<open>HH:MM\<close> of an hour and a minute below 100.\<close>

definition hhmm :: "nat \<Rightarrow> nat \<Rightarrow> string" where
  "hhmm h m =
     [digit_char (h div 10), digit_char (h mod 10), CHR '':'',
      digit_char (m div 10), digit_char (m mod 10)]"

text \<open>The string of a minute of the day, and a slot of \<open>d\<close> minutes inside the
  minutes \<open>[a, b]\<close> of the day \<open>dt\<close>.\<close>

definition timeString :: "int \<Rightarrow> string" where
  "timeString x = hhmm (nat (x div 60)) (nat (x mod 60))"

definition insideSlot :: "string \<Rightarrow> int \<Rightarrow> int \<Rightarrow> int \<Rightarrow> timeslot \<Rightarrow> bool" where
  "insideSlot dt a b d x =
     (slot_date x = dt \<and>
      (\<exists>k. minuteOfDay (slot_start x) = Num k \<and> minuteOfDay (slot_end x) = Num (k + d) \<and>
           a \<le> k \<and> k + d \<le> b))"

text \<open>Every slot an interviewer shares with the candidate conflicts with the tracked
  slots.\<close>

definition blocked ::
  "availability list \<Rightarrow> (string \<times> availability list) list \<Rightarrow> scheduling_options
     \<Rightarrow> timeslot list \<Rightarrow> string \<Rightarrow> bool" where
  "blocked cand imap opts used i =
     (case map_of imap i of
        None \<Rightarrow> False
      | Some avs \<Rightarrow>
          (case findOverlappingSlots cand avs opts of
             Inl e \<Rightarrow> False
           | Inr slots \<Rightarrow>
               list_all (\<lambda>s. hasCandidateTimeConflict (proposedSlot s) used (bufferOr15 opts)) slots))"

section \<open>Concrete inputs\<close>

text \<open>Collaborators that always answer: the conversion appends \<^verbatim>\<open>Z\<close>, the long
  date is the date itself, the clock shows 10 January 2024.\<close>

definition plainEnv :: env where
  "plainEnv =
     \<lparr>todayIso = ''2024-01-10'',
      zonedTimeToUtcIso = (\<lambda>dateTimeString tz. Inr (dateTimeString @ ''Z'')),
      formatLongDate = (\<lambda>d. Inr d)\<rparr>"

definition noOptions :: partial_options where
  "noOptions =
     \<lparr>p_duration = None, p_bufferTime = None, p_businessHours = None,
      p_preferredDays = None, p_maxSuggestions = None\<rparr>"

definition window :: "string \<Rightarrow> string \<Rightarrow> string \<Rightarrow> timeslot" where
  "window d a b = \<lparr>slot_date = d, slot_start = a, slot_end = b\<rparr>"

definition matchOf :: "string \<Rightarrow> string \<Rightarrow> string \<Rightarrow> int \<Rightarrow> timeslot_match" where
  "matchOf d a b n =
     \<lparr>date = d, startTime = a, endTime = b, match_duration = n, score = 100, reasons = [],
      interviewer_id = None, interviewer_name = None\<rparr>"

definition interviewOf :: "string \<Rightarrow> string \<Rightarrow> string \<Rightarrow> string \<Rightarrow> individual_interview" where
  "interviewOf i d a b =
     \<lparr>i_interviewer_id = i, i_interviewer_name = ''Interviewer '' @ i, i_date = d,
      i_start_time = a, i_end_time = b, i_score = 100, i_reasons = [],
      i_scheduled_time = d @ ''T'' @ a @ '':00Z''\<rparr>"

definition requestOf :: "availability list \<Rightarrow> availability list \<Rightarrow> schedule_request" where
  "requestOf cand ints =
     \<lparr>scheduler_id = ''s1'', timezone = ''UTC'', interview_duration = 30,
      candidate_availability = cand, interviewer_availability = ints, users = None\<rparr>"

text \<open>Two interviewers and the candidate, all free 09:00-10:00 on the same day;
  duration 30, buffer 15.\<close>

definition options30_15 :: scheduling_options where
  "options30_15 = defaultOptions\<lparr>duration := 30, bufferTime := 15\<rparr>"

definition oneCandidate :: "availability list" where
  "oneCandidate =
     [\<lparr>user_id = ''cand'', time_slots = [window ''2024-01-10'' ''09:00'' ''10:00'']\<rparr>]"

definition twoInterviewers :: "availability list" where
  "twoInterviewers =
     [\<lparr>user_id = ''i1'', time_slots = [window ''2024-01-10'' ''09:00'' ''10:00'']\<rparr>,
      \<lparr>user_id = ''i2'', time_slots = [window ''2024-01-10'' ''09:00'' ''10:00'']\<rparr>]"

text \<open>Everybody free 09:00-12:00 on the same day.\<close>

definition sameDayRequest :: schedule_request where
  "sameDayRequest =
     requestOf
       [\<lparr>user_id = ''cand'', time_slots = [window ''2024-01-10'' ''09:00'' ''12:00'']\<rparr>]
       [\<lparr>user_id = ''i1'', time_slots = [window ''2024-01-10'' ''09:00'' ''12:00'']\<rparr>,
        \<lparr>user_id = ''i2'', time_slots = [window ''2024-01-10'' ''09:00'' ''12:00'']\<rparr>]"

text \<open>One interviewer offers a slot with an empty date, the other the same hour on the
  day the clock shows; the candidate offers both.\<close>

definition missingDateRequest :: schedule_request where
  "missingDateRequest =
     requestOf
       [\<lparr>user_id = ''cand'',
         time_slots = [window [] ''09:00'' ''10:00'', window ''2024-01-10'' ''09:00'' ''10:00'']\<rparr>]
       [\<lparr>user_id = ''i1'', time_slots = [window [] ''09:00'' ''10:00'']\<rparr>,
        \<lparr>user_id = ''i2'', time_slots = [window ''2024-01-10'' ''09:00'' ''10:00'']\<rparr>]"

text \<open>The interviewers are free 11:00-12:00, an hour after the candidate's 09:00-10:00 of
  the same day has ended: with one interviewer, and with two.\<close>

definition laterInterviewerRequest :: schedule_request where
  "laterInterviewerRequest =
     requestOf
       [\<lparr>user_id = ''cand'', time_slots = [window ''2024-01-10'' ''09:00'' ''10:00'']\<rparr>]
       [\<lparr>user_id = ''i1'', time_slots = [window ''2024-01-10'' ''11:00'' ''12:00'']\<rparr>]"

definition laterInterviewersRequest :: schedule_request where
  "laterInterviewersRequest =
     requestOf
       [\<lparr>user_id = ''cand'', time_slots = [window ''2024-01-10'' ''09:00'' ''10:00'']\<rparr>]
       [\<lparr>user_id = ''i1'', time_slots = [window ''2024-01-10'' ''11:00'' ''12:00'']\<rparr>,
        \<lparr>user_id = ''i2'', time_slots = [window ''2024-01-10'' ''11:00'' ''12:00'']\<rparr>]"

text \<open>The interviewer is free on another day than the candidate.\<close>

definition otherDayRequest :: schedule_request where
  "otherDayRequest =
     requestOf
       [\<lparr>user_id = ''cand'', time_slots = [window ''2024-01-10'' ''09:00'' ''10:00'']\<rparr>]
       [\<lparr>user_id = ''i1'', time_slots = [window ''2024-01-11'' ''09:00'' ''10:00'']\<rparr>]"

text \<open>The candidate's start time has no colon.\<close>

definition badTimeRequest :: schedule_request where
  "badTimeRequest =
     requestOf
       [\<lparr>user_id = ''cand'', time_slots = [window ''2024-01-10'' ''9'' ''10:00'']\<rparr>]
       [\<lparr>user_id = ''i1'', time_slots = [window ''2024-01-10'' ''09:00'' ''10:00'']\<rparr>]"

text \<open>
  A function on the store and a function on values do the same on the object at an
  address: the same result, and the object becomes \<open>fixDate\<close> of itself.
\<close>

definition steps ::
  "env \<Rightarrow> (nat \<Rightarrow> store \<Rightarrow> (error + 'b) \<times> store) \<Rightarrow> (timeslot_match \<Rightarrow> error + 'c) \<Rightarrow> ('c \<Rightarrow> 'b)
     \<Rightarrow> bool" where
  "steps ev f_s f_p out =
     (\<forall>base l i. i < length l \<longrightarrow>
        f_s (length base + i) (base @ map MatchObj l) =
          ((case f_p (l ! i) of Inl e \<Rightarrow> Inl e | Inr q \<Rightarrow> Inr (out q)),
           base @ map MatchObj (l[i := fixDate ev (l ! i)])))"

text \<open>The request with the missing date as objects: four \<^verbatim>\<open>TimeSlot\<close> objects at the
  addresses 0 to 3.\<close>

definition missingDateStore :: store where
  "missingDateStore =
     [SlotObj (window [] ''09:00'' ''10:00''), SlotObj (window ''2024-01-10'' ''09:00'' ''10:00''),
      SlotObj (window [] ''09:00'' ''10:00''), SlotObj (window ''2024-01-10'' ''09:00'' ''10:00'')]"

definition missingDateRefs :: request_ref where
  "missingDateRefs =
     \<lparr>ref_scheduler_id = ''s1'', ref_timezone = ''UTC'', ref_interview_duration = 30,
      ref_candidate_availability = [\<lparr>ref_user_id = ''cand'', ref_time_slots = [0, 1]\<rparr>],
      ref_interviewer_availability =
        [\<lparr>ref_user_id = ''i1'', ref_time_slots = [2]\<rparr>,
         \<lparr>ref_user_id = ''i2'', ref_time_slots = [3]\<rparr>],
      ref_users = None\<rparr>"

section \<open>Time strings\<close>

lemma digit_val_char: "digit_val c = Some n \<Longrightarrow> digit_char n = c \<and> n < 10"
  by (auto simp: digit_val_def digit_char_def Let_def split: if_splits)

lemma digit_char_val: "n < 10 \<Longrightarrow> digit_val (digit_char n) = Some n"
  by (simp add: digit_val_def digit_char_def Let_def)

lemma digit_char_0: "digit_char 0 = CHR ''0''"
proof -
  have "digit_val CHR ''0'' = Some 0" by (simp add: digit_val_def)
  then show ?thesis using digit_val_char by blast
qed

lemma digit_char_not_special:
  assumes n: "n < 10"
  shows "digit_char n \<noteq> CHR '':'' \<and> digit_char n \<noteq> CHR ''-'' \<and> digit_char n \<noteq> CHR ''+''"
proof -
  have "digit_val (digit_char n) = Some n" using n by (rule digit_char_val)
  moreover have "digit_val CHR '':'' = None" "digit_val CHR ''-'' = None"
    "digit_val CHR ''+'' = None"
    by (simp_all add: digit_val_def)
  ultimately show ?thesis by auto
qed

lemma str_nat_two:
  assumes a: "a < 10" and b: "b < 10"
  shows "padStart2 (str_nat (10 * a + b)) = [digit_char a, digit_char b]"
proof (cases "a = 0")
  case True
  with b show ?thesis by (simp add: str_nat.simps [of b] padStart2_def digit_char_0)
next
  case False
  with a b have "(10 * a + b) div 10 = a" "(10 * a + b) mod 10 = b" "\<not> 10 * a + b < 10"
    by auto
  then show ?thesis using a
    by (simp add: str_nat.simps [of "10 * a + b"] str_nat.simps [of a] padStart2_def)
qed

lemma Number_two_digits:
  "a < 10 \<Longrightarrow> b < 10 \<Longrightarrow> Number_js [digit_char a, digit_char b] = Num (int (10 * a + b))"
  using digit_char_not_special [of a]
  by (simp add: Number_js_def unsigned_value_def digit_char_val)

lemma split_two_digits:
  "a < 10 \<Longrightarrow> b < 10 \<Longrightarrow> c < 10 \<Longrightarrow> d < 10 \<Longrightarrow>
   split_on CHR '':'' [digit_char a, digit_char b, CHR '':'', digit_char c, digit_char d]
     = [[digit_char a, digit_char b], [digit_char c, digit_char d]]"
  using digit_char_not_special [of a] digit_char_not_special [of b]
    digit_char_not_special [of c] digit_char_not_special [of d]
  by simp

lemma parseTime_hhmm:
  assumes h: "h < 100" and m: "m < 100"
  shows "parseTime (hhmm h m) =
    \<lparr>hours = Num (int h), minutes = Some (Num (int m)),
     totalMinutes = Num (int h * 60 + int m)\<rparr>"
proof -
  from h m have *: "h div 10 < 10" "h mod 10 < 10" "m div 10 < 10" "m mod 10 < 10" by auto
  have **: "10 * (h div 10) + h mod 10 = h" "10 * (m div 10) + m mod 10 = m" by auto
  have s: "split_on CHR '':'' (hhmm h m)
      = [[digit_char (h div 10), digit_char (h mod 10)],
         [digit_char (m div 10), digit_char (m mod 10)]]"
    unfolding hhmm_def by (rule split_two_digits [OF *])
  have n1: "Number_js [digit_char (h div 10), digit_char (h mod 10)] = Num (int h)"
    using Number_two_digits [OF *(1,2)] ** by simp
  have n2: "Number_js [digit_char (m div 10), digit_char (m mod 10)] = Num (int m)"
    using Number_two_digits [OF *(3,4)] ** by simp
  show ?thesis unfolding parseTime_def s by (simp add: n1 n2)
qed

lemma formatTime_hhmm:
  assumes h: "h < 100" and m: "m < 100"
  shows "formatTime \<lparr>hours = Num (int h), minutes = Some (Num (int m)), totalMinutes = t\<rparr>
    = Inr (hhmm h m)"
proof -
  from h m have *: "h div 10 < 10" "h mod 10 < 10" "m div 10 < 10" "m mod 10 < 10" by auto
  have **: "10 * (h div 10) + h mod 10 = h" "10 * (m div 10) + m mod 10 = m" by auto
  from str_nat_two [OF *(1,2)] str_nat_two [OF *(3,4)]
  show ?thesis
    by (simp add: formatTime_def hhmm_def str_int_def **)
qed

lemma isHHMM_hhmm:
  assumes "isHHMM s"
  shows "\<exists>h m. h < 24 \<and> m < 60 \<and> s = hhmm h m"
proof -
  from assms obtain c1 c2 c4 c5 a b c d where
    s: "s = [c1, c2, CHR '':'', c4, c5]" and
    v: "digit_val c1 = Some a" "digit_val c2 = Some b" "digit_val c4 = Some c"
       "digit_val c5 = Some d" and
    r: "10 * a + b \<le> 23" "10 * c + d \<le> 59"
    by (auto simp: isHHMM_def split: list.splits option.splits)
  from v have k: "digit_char a = c1" "a < 10" "digit_char b = c2" "b < 10"
    "digit_char c = c4" "c < 10" "digit_char d = c5" "d < 10"
    using digit_val_char by blast+
  then have "(10 * a + b) div 10 = a" "(10 * a + b) mod 10 = b"
    "(10 * c + d) div 10 = c" "(10 * c + d) mod 10 = d" by auto
  with s k have "s = hhmm (10 * a + b) (10 * c + d)" by (simp add: hhmm_def)
  with r show ?thesis by (intro exI [of _ "10 * a + b"] exI [of _ "10 * c + d"]) simp
qed

section \<open>The conflict test and the two passes\<close>

lemma hasCandidateTimeConflict_iff:
  "hasCandidateTimeConflict p used b = (\<exists>x\<in>set used. slotsConflict b p x)"
  unfolding hasCandidateTimeConflict_def Let_def list_ex_iff slotsConflict_def
    intervalsConflict_def minuteOfDay_def
  by (auto simp: filter_empty_conv)

lemma conflictsWithScheduled_iff:
  "conflictsWithScheduled allInterviews p options =
     (\<exists>m\<in>set allInterviews. slotsConflict (bufferOr15 options) p (proposedSlot m))"
  unfolding conflictsWithScheduled_def Let_def list_ex_iff slotsConflict_def
    intervalsConflict_def minuteOfDay_def proposedSlot_def
  by auto

lemma pass2_check_is_pass1_check:
  "conflictsWithScheduled allInterviews p options =
     hasCandidateTimeConflict p (map proposedSlot allInterviews) (bufferOr15 options)"
  by (simp add: hasCandidateTimeConflict_iff conflictsWithScheduled_iff)

lemma proposedSlot_assign [simp]: "proposedSlot (assign us i slot) = proposedSlot slot"
  by (simp add: proposedSlot_def assign_def)

lemma interviewer_id_assign [simp]: "interviewer_id (assign us i slot) = Some i"
  by (simp add: assign_def)

lemma conflictFree_snoc:
  "conflictFree b (xs @ [p]) = (conflictFree b xs \<and> (\<forall>x\<in>set xs. \<not> slotsConflict b p x))"
  by (induction xs) auto

lemma pass1_inv:
  "pass1 cand imap options us ids (allI, used) = Inr (allI', used') \<Longrightarrow>
   used = map proposedSlot allI \<Longrightarrow> conflictFree (bufferOr15 options) used \<Longrightarrow>
   used' = map proposedSlot allI' \<and> conflictFree (bufferOr15 options) used'"
proof (induction ids arbitrary: allI used)
  case Nil
  then show ?case by auto
next
  case (Cons i ids)
  from Cons.prems(1) obtain avs slots where
    avs: "map_of imap i = Some avs" and
    slots: "findOverlappingSlots cand avs options = Inr slots"
    by (auto split: option.splits sum.splits)
  show ?case
  proof (cases "find (\<lambda>slot. \<not> hasCandidateTimeConflict (proposedSlot slot) used (bufferOr15 options)) slots")
    case None
    with Cons.prems avs slots have "pass1 cand imap options us ids (allI, used) = Inr (allI', used')"
      by simp
    from Cons.IH [OF this Cons.prems(2,3)] show ?thesis .
  next
    case (Some slot)
    then have free: "\<not> hasCandidateTimeConflict (proposedSlot slot) used (bufferOr15 options)"
      by (auto simp: find_Some_iff)
    from Some Cons.prems avs slots
    have run: "pass1 cand imap options us ids
        (allI @ [assign us i slot], used @ [proposedSlot slot]) = Inr (allI', used')"
      by simp
    have u: "used @ [proposedSlot slot] = map proposedSlot (allI @ [assign us i slot])"
      using Cons.prems(2) by simp
    have c: "conflictFree (bufferOr15 options) (used @ [proposedSlot slot])"
      using Cons.prems(3) free by (simp add: conflictFree_snoc hasCandidateTimeConflict_iff)
    from Cons.IH [OF run u c] show ?thesis .
  qed
qed

lemma pass2_eq_pass1:
  "pass2 cand imap options us ids (allI, map proposedSlot allI) =
   pass1 cand imap options us ids (allI, map proposedSlot allI)"
proof (induction ids arbitrary: allI)
  case Nil
  then show ?case by simp
next
  case (Cons i ids)
  have step: "\<And>slot. pass2 cand imap options us ids
        (allI @ [assign us i slot], map proposedSlot allI @ [proposedSlot slot]) =
      pass1 cand imap options us ids
        (allI @ [assign us i slot], map proposedSlot allI @ [proposedSlot slot])"
    using Cons.IH [of "allI @ [assign us i slot]" for slot] by simp
  show ?case
    by (simp add: pass2_check_is_pass1_check step Cons.IH split: option.splits sum.splits)
qed

text \<open>A run of the assigner is a first pass from the empty state and a second pass,
  with the same conflict test, over the interviewers the first one left out.\<close>

lemma findIndividualInterviews_runs:
  assumes "findIndividualInterviews cand ints opts us = Inr res"
  obtains a1 u2 where
    "pass1 cand (interviewerMap ints) opts us (map fst (interviewerMap ints)) ([], [])
       = Inr (a1, map proposedSlot a1)"
    "pass1 cand (interviewerMap ints) opts us
       (unscheduledInterviewerIds (map fst (interviewerMap ints)) a1) (a1, map proposedSlot a1)
       = Inr (res, u2)"
    "conflictFree (bufferOr15 opts) (map proposedSlot a1)"
proof -
  from assms obtain a1 u1 u2 where
    p1: "pass1 cand (interviewerMap ints) opts us (map fst (interviewerMap ints)) ([], [])
          = Inr (a1, u1)" and
    p2: "pass2 cand (interviewerMap ints) opts us
           (unscheduledInterviewerIds (map fst (interviewerMap ints)) a1) (a1, u1)
          = Inr (res, u2)"
    by (auto simp: findIndividualInterviews_def Let_def split: sum.splits prod.splits)
  have e: "[] = map proposedSlot ([] :: timeslot_match list)" by simp
  have c: "conflictFree (bufferOr15 opts) []" by simp
  from pass1_inv [OF p1 e c]
  have u1: "u1 = map proposedSlot a1" and cf: "conflictFree (bufferOr15 opts) u1" by blast+
  from p2 have "pass1 cand (interviewerMap ints) opts us
      (unscheduledInterviewerIds (map fst (interviewerMap ints)) a1) (a1, map proposedSlot a1)
      = Inr (res, u2)"
    by (simp add: u1 pass2_eq_pass1)
  with p1 cf u1 that show thesis by simp
qed

lemma findIndividualInterviews_conflictFree:
  assumes "findIndividualInterviews cand ints opts us = Inr res"
  shows "conflictFree (bufferOr15 opts) (map proposedSlot res)"
proof -
  from assms obtain a1 u2 where
    p2: "pass1 cand (interviewerMap ints) opts us
       (unscheduledInterviewerIds (map fst (interviewerMap ints)) a1) (a1, map proposedSlot a1)
       = Inr (res, u2)" and
    cf: "conflictFree (bufferOr15 opts) (map proposedSlot a1)"
    by (rule findIndividualInterviews_runs)
  from pass1_inv [OF p2 refl cf] show ?thesis by blast
qed

lemma conflictFree_nth:
  "conflictFree b xs \<Longrightarrow> i < j \<Longrightarrow> j < length xs \<Longrightarrow> \<not> slotsConflict b (xs ! j) (xs ! i)"
proof (induction xs arbitrary: i j)
  case Nil
  then show ?case by simp
next
  case (Cons x xs)
  show ?case
  proof (cases i)
    case 0
    with Cons.prems obtain j' where j': "j = Suc j'" "j' < length xs" by (cases j) auto
    with Cons.prems 0 show ?thesis by auto
  next
    case (Suc i')
    with Cons.prems obtain j' where j': "j = Suc j'" "j' < length xs" "i' < j'" by (cases j) auto
    with Cons Suc show ?thesis by auto
  qed
qed

section \<open>The response shows the assigned interviews\<close>

lemma map_e_list_all2:
  "map_e f xs = Inr ys \<Longrightarrow> list_all2 (\<lambda>x y. f x = Inr y) xs ys"
  by (induction xs arbitrary: ys) (auto split: sum.splits)

lemma map_e_cong:
  "(\<And>x. x \<in> set xs \<Longrightarrow> f x = g x) \<Longrightarrow> map_e f xs = map_e g xs"
  by (induction xs) (auto split: sum.splits)

lemma fixDate_idem [simp]: "fixDate ev (fixDate ev slot) = fixDate ev slot"
  by (simp add: fixDate_def)

lemma fixDate_times [simp]:
  "startTime (fixDate ev slot) = startTime slot"
  "endTime (fixDate ev slot) = endTime slot"
  "interviewer_id (fixDate ev slot) = interviewer_id slot"
  by (simp_all add: fixDate_def)

lemma fixDate_nonempty: "date slot \<noteq> [] \<Longrightarrow> fixDate ev slot = slot"
  by (simp add: fixDate_def)

lemma createScheduledTime_fst:
  "createScheduledTime ev slot tz = Inr p \<Longrightarrow> fst p = fixDate ev slot"
  by (auto simp: createScheduledTime_def Let_def split: sum.splits)

lemma map_e_create_fst:
  "map_e (\<lambda>slot. createScheduledTime ev slot tz) xs = Inr ps \<Longrightarrow>
   map fst ps = map (fixDate ev) xs"
proof (induction xs arbitrary: ps)
  case Nil
  then show ?case by auto
next
  case (Cons x xs)
  then show ?case
    by (auto split: sum.splits dest: createScheduledTime_fst)
qed

lemma availableSlotEntry_fst:
  "availableSlotEntry ev tz slot = Inr p \<Longrightarrow> fst p = fixDate ev slot"
  by (auto simp: availableSlotEntry_def split: sum.splits dest: createScheduledTime_fst)

lemma map_e_available_fst:
  "map_e (availableSlotEntry ev tz) xs = Inr ps \<Longrightarrow> map fst ps = map (fixDate ev) xs"
proof (induction xs arbitrary: ps)
  case Nil
  then show ?case by auto
next
  case (Cons x xs)
  then show ?case
    by (auto split: sum.splits dest: availableSlotEntry_fst)
qed

lemma slice_recombine: "take 1 l @ drop 1 (take hi l) @ drop (max 1 hi) l = l"
proof (cases hi)
  case 0
  then show ?thesis by simp
next
  case (Suc k)
  have "take 1 l @ drop 1 (take hi l) = take hi l"
    using Suc by (cases l) simp_all
  moreover have "max 1 hi = hi" using Suc by simp
  ultimately show ?thesis by (metis append_assoc append_take_drop_id)
qed

lemma individualEntry_times:
  "individualEntry ev tz m = Inr iv \<Longrightarrow> sameTimes m iv"
  by (auto simp: individualEntry_def sameTimes_def split: sum.splits)

lemma map_e_individual_times:
  "map_e (individualEntry ev tz) xs = Inr ivs \<Longrightarrow> list_all2 sameTimes xs ivs"
  by (drule map_e_list_all2) (auto elim!: list_all2_mono dest: individualEntry_times)

lemma successResponse_interviews:
  assumes "successResponse ev request opts st l1 = Inr r"
  shows "success r \<and> (\<exists>ivs. individual_interviews r = Some ivs \<and>
           list_all2 sameTimes (map (fixDate ev) l1) ivs)"
proof -
  from assms obtain msg suggested available individual where
    sug: "map_e (\<lambda>slot. createScheduledTime ev slot (timezone request))
            (drop 1 (take (sliceEnd (maxSuggestions opts) (length l1)) l1)) = Inr suggested" and
    av: "map_e (availableSlotEntry ev (timezone request))
           (take 1 l1 @ map fst suggested @
            drop (max 1 (sliceEnd (maxSuggestions opts) (length l1))) l1) = Inr available" and
    ind: "map_e (individualEntry ev (timezone request)) (map fst available) = Inr individual" and
    r: "r = \<lparr>success = True, scheduled_time = Some st, message = msg,
             suggested_times = Some (map snd suggested),
             all_available_slots = Some (map snd available),
             availability_summary = Some (generateAvailabilitySummary request),
             individual_interviews = Some individual\<rparr>"
    by (auto simp: successResponse_def Let_def split: sum.splits)
  let ?hi = "sliceEnd (maxSuggestions opts) (length l1)"
  have "map fst available =
      map (fixDate ev) (take 1 l1 @ map fst suggested @ drop (max 1 ?hi) l1)"
    using map_e_available_fst [OF av] .
  also have "\<dots> = map (fixDate ev) (take 1 l1) @ map (fixDate ev) (drop 1 (take ?hi l1)) @
      map (fixDate ev) (drop (max 1 ?hi) l1)"
    using map_e_create_fst [OF sug] by simp
  also have "\<dots> = map (fixDate ev) (take 1 l1 @ drop 1 (take ?hi l1) @ drop (max 1 ?hi) l1)"
    by simp
  also have "\<dots> = map (fixDate ev) l1" by (simp only: slice_recombine)
  finally have "map fst available = map (fixDate ev) l1" .
  with map_e_individual_times [OF ind] r show ?thesis by simp
qed

lemma tryBody_interviews:
  assumes "tryBody ev request options = Inr r" and "success r"
  shows "\<exists>res ivs.
      findIndividualInterviews (candidate_availability request) (interviewer_availability request)
        (mergeOptions request options) (users request) = Inr res \<and>
      individual_interviews r = Some ivs \<and> list_all2 sameTimes (map (fixDate ev) res) ivs"
proof -
  from assms obtain primaryInterview others p st where
    res: "findIndividualInterviews (candidate_availability request)
            (interviewer_availability request) (mergeOptions request options) (users request)
          = Inr (primaryInterview # others)" and
    c: "createScheduledTime ev primaryInterview (timezone request) = Inr (p, st)" and
    s: "successResponse ev request (mergeOptions request options) st (p # others) = Inr r"
    by (auto simp: tryBody_def Let_def noOverlapResponse_def split: sum.splits list.splits)
  from createScheduledTime_fst [OF c] have p: "p = fixDate ev primaryInterview" by simp
  from successResponse_interviews [OF s] obtain ivs where
    "individual_interviews r = Some ivs"
    "list_all2 sameTimes (map (fixDate ev) (p # others)) ivs" by blast
  with res p show ?thesis by simp
qed

lemma findOptimalSchedule_success:
  "success (findOptimalSchedule ev request options) \<Longrightarrow>
   tryBody ev request options = Inr (findOptimalSchedule ev request options)"
  by (auto simp: findOptimalSchedule_def failedResponse_def split: sum.splits)

section \<open>Where the dates of the assigned interviews come from\<close>

lemma collect_e_set:
  "collect_e f xs = Inr ys \<Longrightarrow> y \<in> set ys \<Longrightarrow> \<exists>x\<in>set xs. \<exists>zs. f x = Inr zs \<and> y \<in> set zs"
  by (induction xs arbitrary: ys) (auto split: sum.splits)

lemma findOverlappingSlots_date:
  assumes "findOverlappingSlots cand avs opts = Inr ms" and "m \<in> set ms"
  shows "date m \<in> slot_date ` set (concat (map time_slots avs))"
proof -
  from collect_e_set [OF assms [unfolded findOverlappingSlots_def]]
  obtain islot zs where
    i: "islot \<in> set (concat (map time_slots avs))" and
    z: "(case map_of (candidateMap cand) (slot_date islot) of
           None \<Rightarrow> Inr []
         | Some candidateSlots \<Rightarrow>
             collect_e
               (\<lambda>candidateSlot.
                  case findTimeSlotOverlap islot candidateSlot (duration opts) of
                    Inl e \<Rightarrow> Inl e
                  | Inr overlaps \<Rightarrow>
                      Inr (map (\<lambda>slot.
                             \<lparr>date = slot_date islot,
                              startTime = slot_start slot,
                              endTime = slot_end slot,
                              match_duration = duration opts,
                              score = 100,
                              reasons = [],
                              interviewer_id = None,
                              interviewer_name = None\<rparr>) overlaps))
               candidateSlots) = Inr zs" and
    m: "m \<in> set zs"
    by blast
  from z m have "date m = slot_date islot"
    by (auto split: option.splits sum.splits dest!: collect_e_set)
  with i show ?thesis by blast
qed

lemma map_push_vals:
  "(\<Union>a\<in>set (map_push m k v). set (snd a)) = insert v (\<Union>a\<in>set m. set (snd a))"
  by (induction m k v rule: map_push.induct) auto

lemma foldl_map_push_vals:
  "(\<Union>a\<in>set (foldl (\<lambda>m x. map_push m (key x) x) m0 xs). set (snd a))
     = (\<Union>a\<in>set m0. set (snd a)) \<union> set xs"
proof (induction xs arbitrary: m0)
  case Nil
  then show ?case by simp
next
  case (Cons x xs)
  show ?case by (simp add: Cons.IH map_push_vals)
qed

lemma interviewerMap_subset:
  assumes "map_of (interviewerMap ints) i = Some avs"
  shows "set avs \<subseteq> set ints"
proof -
  from assms have "(i, avs) \<in> set (interviewerMap ints)" by (rule map_of_SomeD)
  then have "set avs \<subseteq> (\<Union>a\<in>set (interviewerMap ints). set (snd a))" by force
  also have "\<dots> = set ints"
    unfolding interviewerMap_def using foldl_map_push_vals [of user_id "[]" ints] by simp
  finally show ?thesis .
qed

lemma date_assign [simp]: "date (assign us i slot) = date slot"
  by (simp add: assign_def)

lemma pass1_dates:
  assumes "pass1 cand imap opts us ids (allI, used) = Inr (allI', used')"
    and "\<forall>m\<in>set allI. Q (date m)"
    and "\<And>i avs ms m. map_of imap i = Some avs \<Longrightarrow>
           findOverlappingSlots cand avs opts = Inr ms \<Longrightarrow> m \<in> set ms \<Longrightarrow> Q (date m)"
  shows "\<forall>m\<in>set allI'. Q (date m)"
  using assms(1,2)
proof (induction ids arbitrary: allI used)
  case Nil
  then show ?case by auto
next
  case (Cons i ids)
  from Cons.prems(1) obtain avs slots where
    avs: "map_of imap i = Some avs" and
    slots: "findOverlappingSlots cand avs opts = Inr slots"
    by (auto split: option.splits sum.splits)
  show ?case
  proof (cases "find (\<lambda>slot. \<not> hasCandidateTimeConflict (proposedSlot slot) used (bufferOr15 opts)) slots")
    case None
    with Cons.prems avs slots have "pass1 cand imap opts us ids (allI, used) = Inr (allI', used')"
      by simp
    from Cons.IH [OF this Cons.prems(2)] show ?thesis .
  next
    case (Some slot)
    then have "slot \<in> set slots" by (auto simp: find_Some_iff)
    from assms(3) [OF avs slots this] have q: "Q (date slot)" .
    from Some Cons.prems avs slots
    have run: "pass1 cand imap opts us ids
        (allI @ [assign us i slot], used @ [proposedSlot slot]) = Inr (allI', used')"
      by simp
    from Cons.IH [OF run] Cons.prems(2) q show ?thesis by simp
  qed
qed

lemma findIndividualInterviews_dates:
  assumes "findIndividualInterviews cand ints opts us = Inr res" and "m \<in> set res"
  shows "date m \<in> slot_date ` set (concat (map time_slots ints))"
proof -
  let ?Q = "\<lambda>d. d \<in> slot_date ` set (concat (map time_slots ints))"
  from assms(1) obtain a1 u2 where
    p1: "pass1 cand (interviewerMap ints) opts us (map fst (interviewerMap ints)) ([], [])
       = Inr (a1, map proposedSlot a1)" and
    p2: "pass1 cand (interviewerMap ints) opts us
       (unscheduledInterviewerIds (map fst (interviewerMap ints)) a1) (a1, map proposedSlot a1)
       = Inr (res, u2)"
    by (rule findIndividualInterviews_runs)
  have step: "\<And>i avs ms m. map_of (interviewerMap ints) i = Some avs \<Longrightarrow>
      findOverlappingSlots cand avs opts = Inr ms \<Longrightarrow> m \<in> set ms \<Longrightarrow> ?Q (date m)"
  proof -
    fix i avs ms m
    assume a: "map_of (interviewerMap ints) i = Some avs"
      and b: "findOverlappingSlots cand avs opts = Inr ms" and c: "m \<in> set ms"
    from findOverlappingSlots_date [OF b c] interviewerMap_subset [OF a]
    show "?Q (date m)" by auto
  qed
  have q1: "\<forall>m\<in>set a1. ?Q (date m)"
    by (rule pass1_dates [where Q = ?Q, OF p1]) (simp, erule (2) step)
  have "\<forall>m\<in>set res. ?Q (date m)"
    by (rule pass1_dates [where Q = ?Q, OF p2 q1]) (erule (2) step)
  with assms(2) show ?thesis by blast
qed

text \<open>
  What the conflict test gives for the response: when no time slot of an interviewer has
  an empty date, an interview of \<^verbatim>\<open>individual_interviews\<close> passes the test against
  every earlier one of the same date. The test compares minutes of the day as
  \<^verbatim>\<open>parseTime\<close> reads them, so an end at \<^verbatim>\<open>00:00\<close> counts as minute 0.
\<close>

lemma accepted_interviews_pass_conflict_test:
  assumes ok: "success (findOptimalSchedule ev request options)"
    and ivs: "individual_interviews (findOptimalSchedule ev request options) = Some ivs"
    and dates: "\<forall>a\<in>set (interviewer_availability request). \<forall>s\<in>set (time_slots a). slot_date s \<noteq> []"
    and ij: "i < j" "j < length ivs"
    and same: "i_date (ivs ! i) = i_date (ivs ! j)"
  shows "\<not> intervalsConflict
           (minuteOfDay (i_start_time (ivs ! j))) (minuteOfDay (i_end_time (ivs ! j)))
           (minuteOfDay (i_start_time (ivs ! i))) (minuteOfDay (i_end_time (ivs ! i)))
           (bufferOr15 (mergeOptions request options))"
proof -
  let ?opts = "mergeOptions request options"
  from findOptimalSchedule_success [OF ok]
  have "tryBody ev request options = Inr (findOptimalSchedule ev request options)" .
  from tryBody_interviews [OF this ok] ivs obtain res where
    res: "findIndividualInterviews (candidate_availability request)
            (interviewer_availability request) ?opts (users request) = Inr res" and
    rel: "list_all2 sameTimes (map (fixDate ev) res) ivs"
    by auto
  have "\<forall>m\<in>set res. date m \<noteq> []"
    using findIndividualInterviews_dates [OF res] dates by fastforce
  then have "map (fixDate ev) res = res"
    by (simp add: map_idI fixDate_nonempty)
  with rel have rel': "list_all2 sameTimes res ivs" by simp
  then have len: "length res = length ivs" by (rule list_all2_lengthD)
  from rel' ij have si: "sameTimes (res ! i) (ivs ! i)" and sj: "sameTimes (res ! j) (ivs ! j)"
    by (simp_all add: list_all2_nthD2)
  from findIndividualInterviews_conflictFree [OF res]
  have "\<not> slotsConflict (bufferOr15 ?opts) (map proposedSlot res ! j) (map proposedSlot res ! i)"
    using ij len by (intro conflictFree_nth) simp_all
  with ij len have "\<not> slotsConflict (bufferOr15 ?opts) (proposedSlot (res ! j)) (proposedSlot (res ! i))"
    by simp
  moreover have "date (res ! i) = date (res ! j)"
    using si sj same by (simp add: sameTimes_def)
  ultimately have "\<not> intervalsConflict (minuteOfDay (startTime (res ! j))) (minuteOfDay (endTime (res ! j)))
      (minuteOfDay (startTime (res ! i))) (minuteOfDay (endTime (res ! i))) (bufferOr15 ?opts)"
    by (simp add: slotsConflict_def proposedSlot_def)
  with si sj show ?thesis
    by (simp add: sameTimes_def)
qed

section \<open>Order of the interviewers\<close>

lemma map_push_keys: "map fst (map_push m k v) = set_add (map fst m) k"
  by (induction m k v rule: map_push.induct) (auto simp: set_add_def)

lemma foldl_map_push_keys:
  "map fst (foldl (\<lambda>m x. map_push m (key x) x) m0 xs) = foldl set_add (map fst m0) (map key xs)"
  by (induction xs arbitrary: m0) (simp_all add: map_push_keys)

lemma interviewerIds_encounterOrder:
  "map fst (interviewerMap ints) = encounterOrder ints"
  unfolding interviewerMap_def encounterOrder_def
  using foldl_map_push_keys [of user_id "[]" ints] by simp

lemma distinct_foldl_set_add: "distinct acc \<Longrightarrow> distinct (foldl set_add acc xs)"
  by (induction xs arbitrary: acc) (simp_all add: set_add_def)

lemma set_foldl_set_add: "set (foldl set_add acc xs) = set acc \<union> set xs"
  by (induction xs arbitrary: acc) (auto simp: set_add_def)

lemma distinct_encounterOrder: "distinct (encounterOrder ints)"
  by (simp add: encounterOrder_def distinct_foldl_set_add)

lemma set_encounterOrder: "set (encounterOrder ints) = user_id ` set ints"
  by (simp add: encounterOrder_def set_foldl_set_add)

lemma pass1_ids:
  "pass1 cand imap opts us ids (allI, used) = Inr (allI', used') \<Longrightarrow>
   \<exists>new. allI' = allI @ new \<and> subseq (map interviewer_id new) (map Some ids)"
proof (induction ids arbitrary: allI used)
  case Nil
  then show ?case by auto
next
  case (Cons i ids)
  from Cons.prems(1) obtain avs slots where
    avs: "map_of imap i = Some avs" and
    slots: "findOverlappingSlots cand avs opts = Inr slots"
    by (auto split: option.splits sum.splits)
  show ?case
  proof (cases "find (\<lambda>slot. \<not> hasCandidateTimeConflict (proposedSlot slot) used (bufferOr15 opts)) slots")
    case None
    with Cons.prems avs slots have "pass1 cand imap opts us ids (allI, used) = Inr (allI', used')"
      by simp
    from Cons.IH [OF this] obtain new where
      "allI' = allI @ new" "subseq (map interviewer_id new) (map Some ids)" by blast
    then show ?thesis by auto
  next
    case (Some slot)
    from Some Cons.prems avs slots
    have run: "pass1 cand imap opts us ids
        (allI @ [assign us i slot], used @ [proposedSlot slot]) = Inr (allI', used')"
      by simp
    from Cons.IH [OF run] obtain new where
      n: "allI' = (allI @ [assign us i slot]) @ new"
         "subseq (map interviewer_id new) (map Some ids)" by blast
    then have "allI' = allI @ (assign us i slot # new)"
      "subseq (map interviewer_id (assign us i slot # new)) (map Some (i # ids))"
      by simp_all
    then show ?thesis by blast
  qed
qed

lemma subseq_set_mono: "subseq xs ys \<Longrightarrow> set xs \<subseteq> set ys"
  by (induction rule: list_emb.induct) auto

lemma subseq_distinct_mono: "subseq xs ys \<Longrightarrow> distinct ys \<Longrightarrow> distinct xs"
  by (induction rule: list_emb.induct) (auto dest: subseq_set_mono)

section \<open>Runs without a slot, and the clock\<close>

lemma pass1_no_slots:
  "\<forall>i\<in>set ids. \<exists>avs. map_of imap i = Some avs \<and> findOverlappingSlots cand avs opts = Inr [] \<Longrightarrow>
   pass1 cand imap opts us ids st = Inr st"
  by (induction ids) (cases st; auto)+

lemma findIndividualInterviews_no_slots:
  assumes "\<forall>(i, avs)\<in>set (interviewerMap ints). findOverlappingSlots cand avs opts = Inr []"
  shows "findIndividualInterviews cand ints opts us = Inr []"
proof -
  have all: "\<forall>i\<in>set (map fst (interviewerMap ints)).
      \<exists>avs. map_of (interviewerMap ints) i = Some avs \<and> findOverlappingSlots cand avs opts = Inr []"
  proof
    fix i
    assume "i \<in> set (map fst (interviewerMap ints))"
    then obtain avs where m: "map_of (interviewerMap ints) i = Some avs"
      by (metis map_of_eq_None_iff not_None_eq set_map)
    from map_of_SomeD [OF this] assms have "findOverlappingSlots cand avs opts = Inr []" by auto
    with m show "\<exists>avs. map_of (interviewerMap ints) i = Some avs \<and>
        findOverlappingSlots cand avs opts = Inr []" by blast
  qed
  have sub: "\<forall>i\<in>set (unscheduledInterviewerIds (map fst (interviewerMap ints)) []).
      \<exists>avs. map_of (interviewerMap ints) i = Some avs \<and> findOverlappingSlots cand avs opts = Inr []"
    using all by (simp add: unscheduledInterviewerIds_def)
  show ?thesis
    using pass1_no_slots [OF all, of us "([], [])"] pass1_no_slots [OF sub, of us "([], [])"]
      pass2_eq_pass1 [of cand "interviewerMap ints" opts us _ "[]"]
    by (simp add: findIndividualInterviews_def Let_def)
qed

text \<open>
  The three outcomes of \<^verbatim>\<open>findOptimalSchedule\<close>: the \<^verbatim>\<open>catch\<close> turns whatever the
  body throws into the fixed failure, and a run in which no interviewer gets a slot from
  \<^verbatim>\<open>findOverlappingSlots\<close> ends in the "No overlapping time slots" response.
\<close>

lemma findOptimalSchedule_outcomes:
  "success (findOptimalSchedule ev request options) \<or>
   findOptimalSchedule ev request options = noOverlapResponse \<or>
   findOptimalSchedule ev request options = failedResponse"
proof (cases "tryBody ev request options")
  case (Inl e)
  then show ?thesis by (simp add: findOptimalSchedule_def)
next
  case (Inr r)
  show ?thesis
  proof (cases "findIndividualInterviews (candidate_availability request)
      (interviewer_availability request) (mergeOptions request options) (users request)")
    case (Inl e)
    with Inr show ?thesis by (simp add: tryBody_def)
  next
    case res: (Inr res)
    show ?thesis
    proof (cases res)
      case Nil
      with res Inr show ?thesis by (simp add: tryBody_def findOptimalSchedule_def)
    next
      case (Cons p others)
      with res Inr obtain p' st where
        "successResponse ev request (mergeOptions request options) st (p' # others) = Inr r"
        by (auto simp: tryBody_def Let_def split: sum.splits)
      from successResponse_interviews [OF this] Inr show ?thesis
        by (simp add: findOptimalSchedule_def)
    qed
  qed
qed

lemma interviews_only_on_success:
  "individual_interviews (findOptimalSchedule ev request options) = Some ivs \<Longrightarrow>
   success (findOptimalSchedule ev request options)"
  using findOptimalSchedule_outcomes [of ev request options]
  by (auto simp: noOverlapResponse_def failedResponse_def)

lemma thrown_error_is_caught:
  "tryBody ev request options = Inl e \<Longrightarrow>
   findOptimalSchedule ev request options = failedResponse"
  by (simp add: findOptimalSchedule_def)

lemma no_slots_no_overlap_response:
  assumes "\<forall>(i, avs)\<in>set (interviewerMap (interviewer_availability request)).
       findOverlappingSlots (candidate_availability request) avs (mergeOptions request options)
         = Inr []"
  shows "findOptimalSchedule ev request options = noOverlapResponse"
  using findIndividualInterviews_no_slots [OF assms]
  by (simp add: findOptimalSchedule_def tryBody_def)

lemma createScheduledTime_today:
  "date slot \<noteq> [] \<Longrightarrow>
   createScheduledTime (ev\<lparr>todayIso := t\<rparr>) slot tz = createScheduledTime ev slot tz"
  by (simp add: createScheduledTime_def fixDate_def)

lemma formatMultipleInterviewsMessage_today:
  "formatMultipleInterviewsMessage (ev\<lparr>todayIso := t\<rparr>) l tz b =
   formatMultipleInterviewsMessage ev l tz b"
  by (simp add: formatMultipleInterviewsMessage_def formatScheduleMessage_def split: list.splits)

lemma availableSlotEntry_today:
  "date slot \<noteq> [] \<Longrightarrow>
   availableSlotEntry (ev\<lparr>todayIso := t\<rparr>) tz slot = availableSlotEntry ev tz slot"
  by (simp add: availableSlotEntry_def createScheduledTime_today)

lemma individualEntry_today:
  "date slot \<noteq> [] \<Longrightarrow>
   individualEntry (ev\<lparr>todayIso := t\<rparr>) tz slot = individualEntry ev tz slot"
  by (simp add: individualEntry_def createScheduledTime_today)

lemma successResponse_today:
  assumes d: "\<forall>m\<in>set l1. date m \<noteq> []"
  shows "successResponse (ev\<lparr>todayIso := t\<rparr>) request opts st l1 =
         successResponse ev request opts st l1"
proof -
  let ?ev' = "ev\<lparr>todayIso := t\<rparr>"
  let ?tz = "timezone request"
  let ?hi = "sliceEnd (maxSuggestions opts) (length l1)"
  have sug: "map_e (\<lambda>slot. createScheduledTime ?ev' slot ?tz) (drop 1 (take ?hi l1)) =
      map_e (\<lambda>slot. createScheduledTime ev slot ?tz) (drop 1 (take ?hi l1))"
    using d by (intro map_e_cong createScheduledTime_today) (auto dest!: in_set_dropD in_set_takeD)
  have l2: "take 1 l1 @ map fst suggested @ drop (max 1 ?hi) l1 = l1"
    if "map_e (\<lambda>slot. createScheduledTime ev slot ?tz) (drop 1 (take ?hi l1)) = Inr suggested"
    for suggested
  proof -
    have "map (fixDate ev) (drop 1 (take ?hi l1)) = drop 1 (take ?hi l1)"
      using d by (intro map_idI fixDate_nonempty) (auto dest!: in_set_dropD in_set_takeD)
    with map_e_create_fst [OF that] show ?thesis by (simp only: slice_recombine)
  qed
  have av: "map_e (availableSlotEntry ?ev' ?tz) l1 = map_e (availableSlotEntry ev ?tz) l1"
    using d by (intro map_e_cong availableSlotEntry_today) auto
  have ind: "map_e (individualEntry ?ev' ?tz) (map fst available) =
      map_e (individualEntry ev ?tz) (map fst available)"
    if "map_e (availableSlotEntry ev ?tz) l1 = Inr available" for available
  proof -
    have "map (fixDate ev) l1 = l1"
      using d by (intro map_idI fixDate_nonempty) auto
    with map_e_available_fst [OF that] have "map fst available = l1" by simp
    then show ?thesis
      using d by (intro map_e_cong individualEntry_today) auto
  qed
  have l2': "take (Suc 0) l1 @ map fst suggested @ drop (max (Suc 0) ?hi) l1 = l1"
    if "map_e (\<lambda>slot. createScheduledTime ev slot ?tz) (drop (Suc 0) (take ?hi l1)) = Inr suggested"
    for suggested
    using l2 [of suggested] that by simp
  show ?thesis
    unfolding successResponse_def Let_def formatMultipleInterviewsMessage_today sug
    by (auto simp: l2' av ind split: sum.splits)
qed

section \<open>Slots of intersecting windows\<close>

lemma minutesToTime_string:
  assumes "0 \<le> x" and "x < 1440"
  shows "formatTime (minutesToTime (Num x)) = Inr (hhmm (nat (x div 60)) (nat (x mod 60)))"
    and "parseTime (hhmm (nat (x div 60)) (nat (x mod 60))) =
      \<lparr>hours = Num (x div 60), minutes = Some (Num (x mod 60)), totalMinutes = Num x\<rparr>"
proof -
  from assms have r: "js_rem x 1440 = x" by (simp add: js_rem_def)
  from assms have m: "js_rem x 60 = x mod 60" by (simp add: js_rem_def)
  from assms have h: "0 \<le> x div 60" "x div 60 < 24" "0 \<le> x mod 60" "x mod 60 < 60"
    by (auto simp: pos_imp_zdiv_nonneg_iff)
  then have n: "nat (x div 60) < 100" "nat (x mod 60) < 100" by linarith+
  from h have i: "int (nat (x div 60)) = x div 60" "int (nat (x mod 60)) = x mod 60" by simp_all
  show "formatTime (minutesToTime (Num x)) = Inr (hhmm (nat (x div 60)) (nat (x mod 60)))"
    using formatTime_hhmm [OF n, of "Num x", unfolded i] by (simp add: minutesToTime_def r m)
  have "x div 60 * 60 + x mod 60 = x" by simp
  with parseTime_hhmm [OF n, unfolded i]
  show "parseTime (hhmm (nat (x div 60)) (nat (x mod 60))) =
      \<lparr>hours = Num (x div 60), minutes = Some (Num (x mod 60)), totalMinutes = Num x\<rparr>"
    by simp
qed

lemma addMinutes_timeString:
  assumes "0 \<le> x" "x < 1440" "0 \<le> x + d" "x + d < 1440"
  shows "addMinutesToTime (timeString x) d = Inr (timeString (x + d))"
  using minutesToTime_string [OF assms(1,2)] minutesToTime_string [OF assms(3,4)]
  by (simp add: addMinutesToTime_def timeString_def)

lemma minuteOfDay_timeString: "0 \<le> x \<Longrightarrow> x < 1440 \<Longrightarrow> minuteOfDay (timeString x) = Num x"
  using minutesToTime_string(2) [of x] by (simp add: minuteOfDay_def timeString_def)

lemma slot_loop_slots:
  assumes "totalMinutes os = Num a" "totalMinutes oe = Num b" "0 \<le> a" "b < 1440" "0 < d"
    and "avail = b - a - d" "0 \<le> offset"
  shows "\<exists>new. slot_loop dt os oe d avail offset acc = Inr (acc @ new) \<and>
           (\<forall>x\<in>set new. insideSlot dt a b d x) \<and> (offset \<le> avail \<longrightarrow> new \<noteq> [])"
  using assms
proof (induction dt os oe d avail offset acc rule: slot_loop.induct)
  case (1 dt os oe d avail offset acc)
  show ?case
  proof (cases "offset \<le> avail")
    case False
    then show ?thesis by (simp add: slot_loop.simps [of dt os oe d avail offset acc])
  next
    case True
    let ?x = "a + offset"
    from True 1(2-8) have x: "0 \<le> ?x" "?x < 1440" "0 \<le> ?x + d" "?x + d < 1440" "?x + d \<le> b"
      by simp_all
    have st: "formatTime (minutesToTime (js_add (totalMinutes os) (Num offset))) = Inr (timeString ?x)"
      using minutesToTime_string(1) [OF x(1,2)] 1(2) by (simp add: timeString_def)
    have en: "addMinutesToTime (timeString ?x) d = Inr (timeString (?x + d))"
      by (rule addMinutes_timeString [OF x(1-4)])
    have keep: "js_le (totalMinutes (parseTime (timeString (?x + d)))) (totalMinutes oe)"
      using minuteOfDay_timeString [OF x(3,4)] x(5) 1(3) by (simp add: minuteOfDay_def)
    let ?slot = "\<lparr>slot_date = dt, slot_start = timeString ?x, slot_end = timeString (?x + d)\<rparr>"
    have good: "insideSlot dt a b d ?slot"
      using minuteOfDay_timeString [OF x(1,2)] minuteOfDay_timeString [OF x(3,4)] x(5) \<open>0 \<le> offset\<close>
      by (auto simp: insideSlot_def)
    have step: "0 \<le> offset + intervalMinutes avail"
      using \<open>0 \<le> offset\<close> by (simp add: intervalMinutes_def)
    from "1.IH" [OF True refl st en 1(2-7) step] keep
    obtain new where
      r: "slot_loop dt os oe d avail (offset + intervalMinutes avail) (acc @ [?slot])
           = Inr ((acc @ [?slot]) @ new)" and
      g: "\<forall>x\<in>set new. insideSlot dt a b d x"
      by auto
    have "slot_loop dt os oe d avail offset acc = Inr (acc @ (?slot # new))"
      using True st en keep r
      by (subst slot_loop.simps) (simp add: Let_def)
    with good g show ?thesis by (intro exI [of _ "?slot # new"]) simp
  qed
qed

lemma findTimeSlotOverlap_intersecting:
  assumes t: "minuteOfDay (slot_start slot1) = Num s1" "minuteOfDay (slot_end slot1) = Num e1"
      "minuteOfDay (slot_start slot2) = Num s2" "minuteOfDay (slot_end slot2) = Num e2"
    and r: "0 \<le> s1" "0 \<le> s2" "e1 < 1440" "e2 < 1440" "0 < d"
    and i: "max s1 s2 \<le> min e1 e2"
  shows "\<exists>slots. findTimeSlotOverlap slot1 slot2 d = Inr slots \<and>
           (\<forall>x\<in>set slots. insideSlot (slot_date slot1) (max s1 s2) (min e1 e2) d x) \<and>
           (d \<le> min e1 e2 - max s1 s2 \<longrightarrow> slots \<noteq> [])"
proof -
  let ?os = "maxTime (parseTime (slot_start slot1)) (parseTime (slot_start slot2))"
  let ?oe = "minTime (parseTime (slot_end slot1)) (parseTime (slot_end slot2))"
  from t have os: "totalMinutes ?os = Num (max s1 s2)"
    by (auto simp: maxTime_def minuteOfDay_def)
  from t have oe: "totalMinutes ?oe = Num (min e1 e2)"
    by (auto simp: minTime_def minuteOfDay_def)
  from i have "\<not> min e1 e2 < max s1 s2" by linarith
  with os oe have od: "timeDifference ?os ?oe = Num (min e1 e2 - max s1 s2)"
    by (simp add: timeDifference_def)
  show ?thesis
  proof (cases "min e1 e2 - max s1 s2 < d")
    case True
    with od show ?thesis by (simp add: findTimeSlotOverlap_def Let_def)
  next
    case False
    from r have a: "0 \<le> max s1 s2" and b: "min e1 e2 < 1440" by simp_all
    from slot_loop_slots [OF os oe a b \<open>0 < d\<close> refl, of 0 "slot_date slot1" "[]"] False
    obtain new where
      l: "slot_loop (slot_date slot1) ?os ?oe d (min e1 e2 - max s1 s2 - d) 0 [] = Inr new"
      and g: "\<forall>x\<in>set new. insideSlot (slot_date slot1) (max s1 s2) (min e1 e2) d x"
      and n: "new \<noteq> []"
      by auto
    from False od l n have "findTimeSlotOverlap slot1 slot2 d = Inr new"
      by (simp add: findTimeSlotOverlap_def Let_def)
    with g n show ?thesis by blast
  qed
qed

section \<open>The second pass\<close>

lemma pass1_extends:
  "pass1 cand imap opts us ids (allI, used) = Inr (allI', used') \<Longrightarrow>
   \<exists>new. allI' = allI @ new \<and> used' = used @ map proposedSlot new"
proof (induction ids arbitrary: allI used)
  case Nil
  then show ?case by auto
next
  case (Cons i ids)
  from Cons.prems(1) obtain avs slots where
    avs: "map_of imap i = Some avs" and
    slots: "findOverlappingSlots cand avs opts = Inr slots"
    by (auto split: option.splits sum.splits)
  show ?case
  proof (cases "find (\<lambda>slot. \<not> hasCandidateTimeConflict (proposedSlot slot) used (bufferOr15 opts)) slots")
    case None
    with Cons.prems avs slots have "pass1 cand imap opts us ids (allI, used) = Inr (allI', used')"
      by simp
    from Cons.IH [OF this] show ?thesis .
  next
    case (Some slot)
    from Some Cons.prems avs slots
    have run: "pass1 cand imap opts us ids
        (allI @ [assign us i slot], used @ [proposedSlot slot]) = Inr (allI', used')"
      by simp
    from Cons.IH [OF run] obtain new where
      "allI' = (allI @ [assign us i slot]) @ new"
      "used' = (used @ [proposedSlot slot]) @ map proposedSlot new" by blast
    then have "allI' = allI @ (assign us i slot # new) \<and>
        used' = used @ map proposedSlot (assign us i slot # new)" by simp
    then show ?thesis by blast
  qed
qed

lemma conflict_mono:
  "set used \<subseteq> set used' \<Longrightarrow> hasCandidateTimeConflict p used b \<Longrightarrow>
   hasCandidateTimeConflict p used' b"
  by (auto simp: hasCandidateTimeConflict_iff)

lemma blocked_mono:
  "set used \<subseteq> set used' \<Longrightarrow> blocked cand imap opts used i \<Longrightarrow> blocked cand imap opts used' i"
  by (auto simp: blocked_def list_all_iff split: option.splits sum.splits intro: conflict_mono)

lemma pass1_blocked:
  "pass1 cand imap opts us ids (allI, used) = Inr (allI', used') \<Longrightarrow>
   i \<in> set ids \<Longrightarrow> Some i \<notin> set (map interviewer_id allI') \<Longrightarrow>
   blocked cand imap opts used' i"
proof (induction ids arbitrary: allI used)
  case Nil
  then show ?case by simp
next
  case (Cons j ids)
  from Cons.prems(1) obtain avs slots where
    avs: "map_of imap j = Some avs" and
    slots: "findOverlappingSlots cand avs opts = Inr slots"
    by (auto split: option.splits sum.splits)
  show ?case
  proof (cases "find (\<lambda>slot. \<not> hasCandidateTimeConflict (proposedSlot slot) used (bufferOr15 opts)) slots")
    case None
    with Cons.prems avs slots
    have run: "pass1 cand imap opts us ids (allI, used) = Inr (allI', used')" by simp
    show ?thesis
    proof (cases "i \<in> set ids")
      case True
      from Cons.IH [OF run True Cons.prems(3)] show ?thesis .
    next
      case False
      with Cons.prems(2) have "i = j" by simp
      from None have "blocked cand imap opts used j"
        using avs slots by (auto simp: blocked_def find_None_iff list_all_iff)
      moreover from pass1_extends [OF run] have "set used \<subseteq> set used'" by auto
      ultimately show ?thesis using \<open>i = j\<close> by (auto intro: blocked_mono)
    qed
  next
    case (Some slot)
    from Some Cons.prems avs slots
    have run: "pass1 cand imap opts us ids
        (allI @ [assign us j slot], used @ [proposedSlot slot]) = Inr (allI', used')"
      by simp
    show ?thesis
    proof (cases "i \<in> set ids")
      case True
      from Cons.IH [OF run True Cons.prems(3)] show ?thesis .
    next
      case False
      with Cons.prems(2) have "i = j" by simp
      from pass1_extends [OF run] have "Some j \<in> set (map interviewer_id allI')" by auto
      with Cons.prems(3) \<open>i = j\<close> show ?thesis by simp
    qed
  qed
qed

lemma pass1_all_blocked:
  "\<forall>i\<in>set ids. blocked cand imap opts used i \<Longrightarrow>
   pass1 cand imap opts us ids (allI, used) = Inr (allI, used)"
proof (induction ids)
  case Nil
  then show ?case by simp
next
  case (Cons j ids)
  then have b: "blocked cand imap opts used j" and rest: "\<forall>i\<in>set ids. blocked cand imap opts used i"
    by simp_all
  from b obtain avs slots where
    avs: "map_of imap j = Some avs" and
    slots: "findOverlappingSlots cand avs opts = Inr slots" and
    all: "list_all (\<lambda>s. hasCandidateTimeConflict (proposedSlot s) used (bufferOr15 opts)) slots"
    by (auto simp: blocked_def split: option.splits sum.splits)
  from all have "find (\<lambda>slot. \<not> hasCandidateTimeConflict (proposedSlot slot) used (bufferOr15 opts)) slots = None"
    by (auto simp: find_None_iff list_all_iff)
  with avs slots Cons.IH [OF rest] show ?case by simp
qed

lemma second_pass_adds_nothing:
  assumes "findIndividualInterviews cand ints opts us = Inr res"
  shows "pass1 cand (interviewerMap ints) opts us (encounterOrder ints) ([], [])
           = Inr (res, map proposedSlot res)"
proof -
  let ?imap = "interviewerMap ints" and ?ids = "encounterOrder ints"
  from assms obtain a1 u2 where
    p1: "pass1 cand ?imap opts us (map fst ?imap) ([], []) = Inr (a1, map proposedSlot a1)" and
    p2: "pass1 cand ?imap opts us (unscheduledInterviewerIds (map fst ?imap) a1)
           (a1, map proposedSlot a1) = Inr (res, u2)"
    by (rule findIndividualInterviews_runs)
  have "\<forall>i\<in>set (unscheduledInterviewerIds (map fst ?imap) a1).
      blocked cand ?imap opts (map proposedSlot a1) i"
    using pass1_blocked [OF p1] by (auto simp: unscheduledInterviewerIds_def)
  from pass1_all_blocked [OF this, of us a1] p2 have "res = a1" by simp
  with p1 show ?thesis by (simp add: interviewerIds_encounterOrder)
qed

section \<open>The store and the values agree\<close>

lemma readMatch_at:
  "i < length l \<Longrightarrow> readMatch (base @ map MatchObj l) (length base + i) = l ! i"
  by (simp add: readMatch_def nth_append)

lemma createScheduledTime_s_at:
  assumes "i < length l"
  shows "createScheduledTime_s ev tz (length base + i) (base @ map MatchObj l) =
    ((case createScheduledTime ev (l ! i) tz of Inl e \<Rightarrow> Inl e | Inr p \<Rightarrow> Inr (snd p)),
     base @ map MatchObj (l[i := fixDate ev (l ! i)]))"
proof -
  have u: "(base @ map MatchObj l)[length base + i := MatchObj m] =
      base @ map MatchObj (l[i := m])" for m
    by (simp add: list_update_append map_update)
  show ?thesis
  proof (cases "date (l ! i) = []")
    case True
    with assms show ?thesis
      by (simp add: createScheduledTime_s_def createScheduledTime_def fixDate_def Let_def
          nth_append u readMatch_at split: sum.splits)
  next
    case False
    with assms show ?thesis
      by (simp add: createScheduledTime_s_def createScheduledTime_def fixDate_def Let_def
          nth_append readMatch_at split: sum.splits)
  qed
qed

lemma steps_create: "steps ev (createScheduledTime_s ev tz) (\<lambda>m. createScheduledTime ev m tz) snd"
  by (simp add: steps_def createScheduledTime_s_at)

lemma steps_available: "steps ev (availableSlotEntry_s ev tz) (availableSlotEntry ev tz) snd"
  by (auto simp: steps_def availableSlotEntry_s_def availableSlotEntry_def Let_def
      createScheduledTime_s_at readMatch_at split: sum.splits)

lemma steps_individual: "steps ev (individualEntry_s ev tz) (individualEntry ev tz) (\<lambda>x. x)"
  by (auto simp: steps_def individualEntry_s_def individualEntry_def Let_def
      createScheduledTime_s_at readMatch_at split: sum.splits)

lemma mapS_run:
  assumes st: "steps ev f_s f_p out"
  shows "\<exists>l'. mapS f_s [length base + length xs ..< length base + length xs + length ys]
           (base @ map MatchObj (xs @ ys @ zs)) =
         ((case map_e f_p ys of Inl e \<Rightarrow> Inl e | Inr qs \<Rightarrow> Inr (map out qs)),
          base @ map MatchObj l') \<and>
         (\<forall>qs. map_e f_p ys = Inr qs \<longrightarrow> l' = xs @ map (fixDate ev) ys @ zs)"
proof (induction ys arbitrary: xs)
  case Nil
  show ?case by (intro exI [of _ "xs @ zs"]) simp
next
  case (Cons y ys)
  let ?n = "length base + length xs"
  let ?l = "xs @ (y # ys) @ zs"
  have range: "[?n ..< ?n + length (y # ys)] =
      ?n # [length base + length (xs @ [fixDate ev y]) ..<
            length base + length (xs @ [fixDate ev y]) + length ys]"
  proof -
    have "[m ..< m + Suc k] = m # [Suc m ..< Suc m + k]" for m k :: nat
      by (simp add: upt_rec)
    from this [of ?n "length ys"] show ?thesis by simp
  qed
  have i: "length xs < length ?l" by simp
  have upd: "?l[length xs := fixDate ev (?l ! length xs)] = (xs @ [fixDate ev y]) @ ys @ zs"
    by (simp add: list_update_append nth_append)
  from st [unfolded steps_def, rule_format, OF i, of base]
  have step: "f_s ?n (base @ map MatchObj ?l) =
      ((case f_p y of Inl e \<Rightarrow> Inl e | Inr q \<Rightarrow> Inr (out q)),
       base @ map MatchObj ((xs @ [fixDate ev y]) @ ys @ zs))"
    by (simp only: upd) (simp add: nth_append)
  show ?case
  proof (cases "f_p y")
    case (Inl e)
    with step show ?thesis
      by (intro exI [of _ "(xs @ [fixDate ev y]) @ ys @ zs"]) (simp only: range, simp)
  next
    case (Inr q)
    from Cons.IH [of "xs @ [fixDate ev y]"] obtain l' where
      m: "mapS f_s [length base + length (xs @ [fixDate ev y]) ..<
            length base + length (xs @ [fixDate ev y]) + length ys]
           (base @ map MatchObj ((xs @ [fixDate ev y]) @ ys @ zs)) =
         ((case map_e f_p ys of Inl e \<Rightarrow> Inl e | Inr qs \<Rightarrow> Inr (map out qs)),
          base @ map MatchObj l')" and
      l': "\<forall>qs. map_e f_p ys = Inr qs \<longrightarrow> l' = (xs @ [fixDate ev y]) @ map (fixDate ev) ys @ zs"
      by blast
    show ?thesis
    proof (intro exI [of _ l'] conjI)
      show "mapS f_s [?n ..< ?n + length (y # ys)] (base @ map MatchObj ?l) =
         ((case map_e f_p (y # ys) of Inl e \<Rightarrow> Inl e | Inr qs \<Rightarrow> Inr (map out qs)),
          base @ map MatchObj l')"
        using step Inr m by (simp only: range) (simp split: sum.splits)
      show "\<forall>qs. map_e f_p (y # ys) = Inr qs \<longrightarrow> l' = xs @ map (fixDate ev) (y # ys) @ zs"
        using l' Inr by (auto split: sum.splits)
    qed
  qed
qed

lemma readSlot_ext: "readSlot (base @ map MatchObj l) a = readSlot base a"
  by (auto simp: readSlot_def nth_append split: option.splits obj.splits)

lemma derefRequest_ext: "derefRequest (base @ map MatchObj l) r = derefRequest base r"
  by (simp add: derefRequest_def derefAvailability_def readSlot_ext)

lemma readMatch_range:
  "map (readMatch (base @ map MatchObj l)) [length base ..< length base + length l] = l"
  by (rule nth_equalityI) (simp_all add: readMatch_at)


lemma slice_addrs:
  assumes "l1 \<noteq> []" and "hi \<le> length l1"
  shows "drop 1 (take hi [length base ..< length base + length l1]) =
    [length base + length (take 1 l1) ..<
     length base + length (take 1 l1) + length (drop 1 (take hi l1))]"
proof -
  from assms have "length (take 1 l1) = 1" by (cases l1) simp_all
  moreover from assms have "length (drop 1 (take hi l1)) = hi - 1" by simp
  moreover from assms have "take hi [length base ..< length base + length l1] =
      [length base ..< length base + hi]" by (simp add: take_upt)
  ultimately show ?thesis by (cases hi) (simp_all add: drop_upt)
qed

lemma sliceEnd_le: "sliceEnd e len \<le> len"
  by (auto simp: sliceEnd_def)

lemma successResponse_s_run:
  assumes ne: "l1 \<noteq> []"
  shows "\<exists>l'. successResponse_s ev r opts st [length base ..< length base + length l1]
            (base @ map MatchObj l1) =
          ((case successResponse ev (derefRequest base r) opts st l1 of
              Inl e \<Rightarrow> failedResponse | Inr response \<Rightarrow> response),
           base @ map MatchObj l')"
proof -
  let ?tz = "ref_timezone r"
  let ?addrs = "[length base ..< length base + length l1]"
  let ?hi = "sliceEnd (maxSuggestions opts) (length l1)"
  let ?xs = "take 1 l1" and ?ys = "drop 1 (take ?hi l1)" and ?zs = "drop (max 1 ?hi) l1"
  have tz: "timezone (derefRequest base r) = ?tz" by (simp add: derefRequest_def)
  have len: "length ?addrs = length l1" by simp
  have split: "l1 = ?xs @ ?ys @ ?zs" by (simp only: slice_recombine)
  show ?thesis
  proof (cases "formatMultipleInterviewsMessage ev l1 ?tz (bufferOr15 opts)")
    case (Inl e)
    then show ?thesis
      by (intro exI [of _ l1]) (simp add: successResponse_s_def successResponse_def tz readMatch_range)
  next
    case msg: (Inr msg)
    have sa: "drop 1 (take ?hi ?addrs) =
        [length base + length ?xs ..< length base + length ?xs + length ?ys]"
      by (rule slice_addrs [OF ne sliceEnd_le])
    from mapS_run [OF steps_create, of ev ?tz base ?xs ?ys ?zs] obtain l2 where
      m3': "mapS (createScheduledTime_s ev ?tz)
          [length base + length ?xs ..< length base + length ?xs + length ?ys]
          (base @ map MatchObj (?xs @ ?ys @ ?zs)) =
        ((case map_e (\<lambda>m. createScheduledTime ev m ?tz) ?ys of
            Inl e \<Rightarrow> Inl e | Inr qs \<Rightarrow> Inr (map snd qs)),
         base @ map MatchObj l2)" and
      l2: "\<forall>qs. map_e (\<lambda>m. createScheduledTime ev m ?tz) ?ys = Inr qs \<longrightarrow>
        l2 = ?xs @ map (fixDate ev) ?ys @ ?zs"
      by blast
    have m3: "mapS (createScheduledTime_s ev ?tz) (drop 1 (take ?hi ?addrs)) (base @ map MatchObj l1) =
        ((case map_e (\<lambda>m. createScheduledTime ev m ?tz) ?ys of
            Inl e \<Rightarrow> Inl e | Inr qs \<Rightarrow> Inr (map snd qs)),
         base @ map MatchObj l2)"
      unfolding sa using m3' by (simp only: split [symmetric])
    show ?thesis
    proof (cases "map_e (\<lambda>m. createScheduledTime ev m ?tz) ?ys")
      case (Inl e)
      with msg m3 show ?thesis
        by (intro exI [of _ l2])
           (simp add: successResponse_s_def successResponse_def tz readMatch_range Let_def)
    next
      case sug: (Inr suggested)
      with l2 map_e_create_fst [OF sug]
      have l2eq: "l2 = ?xs @ map fst suggested @ ?zs" by simp
      then have len2: "length l2 = length l1"
        using split map_e_create_fst [OF sug] by (metis length_append length_map)
      from mapS_run [OF steps_available, of ev ?tz base "[]" l2 "[]"] obtain l3 where
        m4': "mapS (availableSlotEntry_s ev ?tz)
            [length base + length ([] :: timeslot_match list) ..<
             length base + length ([] :: timeslot_match list) + length l2]
            (base @ map MatchObj ([] @ l2 @ [])) =
          ((case map_e (availableSlotEntry ev ?tz) l2 of
              Inl e \<Rightarrow> Inl e | Inr qs \<Rightarrow> Inr (map snd qs)),
           base @ map MatchObj l3)" and
        l3': "\<forall>qs. map_e (availableSlotEntry ev ?tz) l2 = Inr qs \<longrightarrow>
          l3 = [] @ map (fixDate ev) l2 @ []"
        by blast
      from m4' len2 have
        m4: "mapS (availableSlotEntry_s ev ?tz) ?addrs (base @ map MatchObj l2) =
          ((case map_e (availableSlotEntry ev ?tz) l2 of
              Inl e \<Rightarrow> Inl e | Inr qs \<Rightarrow> Inr (map snd qs)),
           base @ map MatchObj l3)"
        by simp
      from l3' have
        l3: "\<forall>qs. map_e (availableSlotEntry ev ?tz) l2 = Inr qs \<longrightarrow> l3 = map (fixDate ev) l2"
        by simp
      show ?thesis
      proof (cases "map_e (availableSlotEntry ev ?tz) l2")
        case (Inl e)
        with msg sug m3 m4 l2eq show ?thesis
          by (intro exI [of _ l3])
             (simp add: successResponse_s_def successResponse_def tz readMatch_range Let_def)
      next
        case av: (Inr available)
        with l3 map_e_available_fst [OF av] have l3eq: "l3 = map fst available" by simp
        then have len3: "length l3 = length l1" using len2 map_e_available_fst [OF av]
          by (metis length_map)
        from mapS_run [OF steps_individual, of ev ?tz base "[]" l3 "[]"] obtain l4 where
          m5': "mapS (individualEntry_s ev ?tz)
              [length base + length ([] :: timeslot_match list) ..<
               length base + length ([] :: timeslot_match list) + length l3]
              (base @ map MatchObj ([] @ l3 @ [])) =
            ((case map_e (individualEntry ev ?tz) l3 of
                Inl e \<Rightarrow> Inl e | Inr qs \<Rightarrow> Inr (map (\<lambda>x. x) qs)),
             base @ map MatchObj l4)"
          by blast
        from m5' len3 have
          m5: "mapS (individualEntry_s ev ?tz) ?addrs (base @ map MatchObj l3) =
            ((case map_e (individualEntry ev ?tz) l3 of
                Inl e \<Rightarrow> Inl e | Inr qs \<Rightarrow> Inr qs),
             base @ map MatchObj l4)"
          by (cases "map_e (individualEntry ev ?tz) l3") simp_all
        have dr: "derefRequest (base @ map (MatchObj \<circ> fst) available) r = derefRequest base r"
          using derefRequest_ext [of base "map fst available" r] by simp
        from msg sug av m3 m4 m5 l2eq l3eq show ?thesis
          by (intro exI [of _ l4])
             (simp add: successResponse_s_def successResponse_def tz readMatch_range Let_def
                dr split: sum.splits)
      qed
    qed
  qed
qed

lemma findOptimalSchedule_s_run:
  "\<exists>l'. findOptimalSchedule_s ev r options h =
     (findOptimalSchedule ev (derefRequest h r) options, h @ map MatchObj l')"
proof -
  let ?request = "derefRequest h r"
  let ?opts = "mergeOptions ?request options"
  have tz: "timezone ?request = ref_timezone r" by (simp add: derefRequest_def)
  show ?thesis
  proof (cases "findIndividualInterviews (candidate_availability ?request)
      (interviewer_availability ?request) ?opts (users ?request)")
    case (Inl e)
    then show ?thesis
      by (intro exI [of _ "[]"])
         (simp add: findOptimalSchedule_s_def findOptimalSchedule_def tryBody_def Let_def)
  next
    case res: (Inr res)
    show ?thesis
    proof (cases res)
      case Nil
      with res show ?thesis
        by (intro exI [of _ "[]"])
           (simp add: findOptimalSchedule_s_def findOptimalSchedule_def tryBody_def Let_def
              allocMatches_def)
    next
      case (Cons p others)
      let ?addrs = "[length h ..< length h + length res]"
      have addrs: "?addrs = length h # [Suc (length h) ..< length h + length res]"
        using Cons by (simp add: upt_rec)
      have c: "createScheduledTime_s ev (ref_timezone r) (length h) (h @ map MatchObj res) =
        ((case createScheduledTime ev p (ref_timezone r) of Inl e \<Rightarrow> Inl e | Inr q \<Rightarrow> Inr (snd q)),
         h @ map MatchObj (fixDate ev p # others))"
        using createScheduledTime_s_at [of 0 res ev "ref_timezone r" h] Cons by simp
      show ?thesis
      proof (cases "createScheduledTime ev p (ref_timezone r)")
        case (Inl e)
        with res Cons c addrs show ?thesis
          by (intro exI [of _ "fixDate ev p # others"])
             (simp add: findOptimalSchedule_s_def findOptimalSchedule_def tryBody_def Let_def
                allocMatches_def tz)
      next
        case (Inr q)
        obtain p' st where q: "q = (p', st)" by (cases q)
        with createScheduledTime_fst [OF Inr] have p': "p' = fixDate ev p" by simp
        from successResponse_s_run [of "fixDate ev p # others" ev r ?opts st h]
        obtain l' where
          s: "successResponse_s ev r ?opts st ?addrs (h @ map MatchObj (fixDate ev p # others)) =
            ((case successResponse ev ?request ?opts st (fixDate ev p # others) of
                Inl e \<Rightarrow> failedResponse | Inr response \<Rightarrow> response),
             h @ map MatchObj l')"
          using Cons by auto
        with res Cons c addrs Inr q p' show ?thesis
          by (intro exI [of _ l'])
             (simp add: findOptimalSchedule_s_def findOptimalSchedule_def tryBody_def Let_def
                allocMatches_def tz)
      qed
    qed
  qed
qed

section \<open>Messages of the validator\<close>

lemma digits_value_snoc:
  "digits_value acc (xs @ [c]) =
     (case digits_value acc xs of
        None \<Rightarrow> None
      | Some v \<Rightarrow> (case digit_val c of None \<Rightarrow> None | Some d \<Rightarrow> Some (10 * v + d)))"
  by (induction xs arbitrary: acc) (auto split: option.splits)

lemma digits_value_str_nat: "digits_value 0 (str_nat n) = Some n"
proof (induction n rule: str_nat.induct)
  case (1 n)
  show ?case
  proof (cases "n < 10")
    case True
    then show ?thesis by (simp add: str_nat.simps [of n] digit_char_val)
  next
    case False
    then have "n mod 10 < 10" by simp
    with False "1.IH" show ?thesis
      by (simp add: str_nat.simps [of n] digits_value_snoc digit_char_val)
  qed
qed

lemma str_nat_inj: "str_nat a = str_nat b \<Longrightarrow> a = b"
  by (metis digits_value_str_nat option.inject)

lemma str_nat_digits: "list_all is_digit (str_nat n) \<and> str_nat n \<noteq> []"
proof (induction n rule: str_nat.induct)
  case (1 n)
  show ?case
  proof (cases "n < 10")
    case True
    then show ?thesis by (simp add: str_nat.simps [of n] is_digit_def digit_char_val)
  next
    case False
    then have "n mod 10 < 10" by simp
    with False "1.IH" show ?thesis
      by (simp add: str_nat.simps [of n] is_digit_def digit_char_val)
  qed
qed

lemma digits_then_other:
  assumes "list_all is_digit u" "list_all is_digit v" "\<not> is_digit c" "\<not> is_digit d"
    and "u @ c # r = v @ d # t"
  shows "u = v \<and> r = t"
  using assms
proof (induction u arbitrary: v)
  case Nil
  then show ?case by (cases v) auto
next
  case (Cons x u)
  then show ?case by (cases v) auto
qed

lemma timeRangeError_inj:
  assumes "timeRangeError i j = timeRangeError i' j'"
  shows "i = i' \<and> j = j'"
proof -
  have sp: "\<not> is_digit CHR '' ''" and co: "\<not> is_digit CHR '':''"
    by (simp_all add: is_digit_def digit_val_def)
  from assms have "str_nat i @ CHR '' '' # (''slot '' @ str_nat j @ '': start time must be before end time'')
      = str_nat i' @ CHR '' '' # (''slot '' @ str_nat j' @ '': start time must be before end time'')"
    by (simp add: timeRangeError_def)
  from digits_then_other [OF _ _ sp sp this] str_nat_digits
  have i: "str_nat i = str_nat i'" and
    r: "''slot '' @ str_nat j @ '': start time must be before end time'' =
        ''slot '' @ str_nat j' @ '': start time must be before end time''"
    by blast+
  from r have "str_nat j @ CHR '':'' # '' start time must be before end time''
      = str_nat j' @ CHR '':'' # '' start time must be before end time''" by simp
  from digits_then_other [OF _ _ co co this] str_nat_digits
  have "str_nat j = str_nat j'" by blast
  with i show ?thesis by (auto dest: str_nat_inj)
qed

lemma timeRangeError_in_slotErrors:
  "timeRangeError i j \<in> set (slotErrors i' j' slot) \<longleftrightarrow>
     i = i' \<and> j = j' \<and> js_ge (hours (parseTime (slot_start slot))) (hours (parseTime (slot_end slot)))"
proof -
  have "timeRangeError i j \<noteq> dateFormatError i' j' slot"
    "timeRangeError i j \<noteq> timeFormatError i' j' slot"
    by (simp_all add: timeRangeError_def dateFormatError_def timeFormatError_def)
  then show ?thesis
    using timeRangeError_inj [of i j i' j']
    by (auto simp: slotErrors_def)
qed

lemma in_concat_enumerate:
  "x \<in> set (concat (map (\<lambda>(k, y). f k y) (enumerate 0 ys))) \<longleftrightarrow>
     (\<exists>k < length ys. x \<in> set (f k (ys ! k)))"
proof
  assume "x \<in> set (concat (map (\<lambda>(k, y). f k y) (enumerate 0 ys)))"
  then obtain k y where p: "(k, y) \<in> set (enumerate 0 ys)" and x: "x \<in> set (f k y)"
    by auto
  from p have "k < length ys" "ys ! k = y" by (simp_all add: in_set_enumerate_eq)
  with x show "\<exists>k < length ys. x \<in> set (f k (ys ! k))" by blast
next
  assume "\<exists>k < length ys. x \<in> set (f k (ys ! k))"
  then obtain k where k: "k < length ys" and x: "x \<in> set (f k (ys ! k))" by blast
  from k have "(k, ys ! k) \<in> set (enumerate 0 ys)" by (simp add: in_set_enumerate_eq)
  with x show "x \<in> set (concat (map (\<lambda>(k, y). f k y) (enumerate 0 ys)))" by force
qed

lemma timeRangeError_in_availErrors:
  "timeRangeError i j \<in> set (availErrors i' avail) \<longleftrightarrow>
     i = i' \<and> j < length (time_slots avail) \<and>
     js_ge (hours (parseTime (slot_start (time_slots avail ! j))))
           (hours (parseTime (slot_end (time_slots avail ! j))))"
proof (cases "time_slots avail = []")
  case True
  then show ?thesis by (simp add: availErrors_def timeRangeError_def)
next
  case False
  have "timeRangeError i j \<in> set (availErrors i' avail) \<longleftrightarrow>
      (\<exists>k < length (time_slots avail).
         timeRangeError i j \<in> set (slotErrors i' k (time_slots avail ! k)))"
    using False in_concat_enumerate [of "timeRangeError i j" "slotErrors i'" "time_slots avail"]
    by (simp only: availErrors_def if_False)
  then show ?thesis by (auto simp: timeRangeError_in_slotErrors)
qed

section \<open>Evaluations\<close>

lemma twoInterviewers_run:
  "findIndividualInterviews oneCandidate twoInterviewers options30_15 None =
     Inr [assign None ''i1'' (matchOf ''2024-01-10'' ''09:00'' ''09:30'' 30)]"
  by code_simp

lemma secondInterviewer_slots:
  "findOverlappingSlots oneCandidate [twoInterviewers ! 1] options30_15 =
     Inr [matchOf ''2024-01-10'' ''09:00'' ''09:30'' 30, matchOf ''2024-01-10'' ''09:07'' ''09:37'' 30,
          matchOf ''2024-01-10'' ''09:14'' ''09:44'' 30, matchOf ''2024-01-10'' ''09:21'' ''09:51'' 30,
          matchOf ''2024-01-10'' ''09:28'' ''09:58'' 30]"
  by code_simp

lemma sameDay_run:
  "success (findOptimalSchedule plainEnv sameDayRequest noOptions) \<and>
   individual_interviews (findOptimalSchedule plainEnv sameDayRequest noOptions) =
     Some [interviewOf ''i1'' ''2024-01-10'' ''09:00'' ''09:30'',
           interviewOf ''i2'' ''2024-01-10'' ''10:00'' ''10:30'']"
  by code_simp

lemma missingDate_run:
  "success (findOptimalSchedule plainEnv missingDateRequest noOptions) \<and>
   individual_interviews (findOptimalSchedule plainEnv missingDateRequest noOptions) =
     Some [interviewOf ''i1'' ''2024-01-10'' ''09:00'' ''09:30'',
           interviewOf ''i2'' ''2024-01-10'' ''09:00'' ''09:30'']"
  by code_simp

lemma sameDay_dates:
  "\<forall>a\<in>set (interviewer_availability sameDayRequest). \<forall>s\<in>set (time_slots a). slot_date s \<noteq> []"
  by (simp add: sameDayRequest_def requestOf_def window_def)

lemma otherDay_run:
  "findOptimalSchedule plainEnv otherDayRequest noOptions = noOverlapResponse"
  by code_simp

lemma badTime_run:
  "tryBody plainEnv badTimeRequest noOptions = Inl TypeError \<and>
   findOptimalSchedule plainEnv badTimeRequest noOptions = failedResponse"
  by code_simp

section \<open>The properties\<close>

text \<open>
  C1. Claimed: in every successful response no two interviews of one date overlap once
  the earlier one's end is extended by the buffer. With the candidate free 09:00-10:00
  and two interviewers free 11:00-12:00 on 2024-01-10, the response is a success in
  which both interviewers meet the candidate at 23:30-00:00 of that date: the same half
  hour twice (the duration is 30 minutes), and in nobody's window. The slots come from
  the wrap-around of \<^verbatim>\<open>timeDifference\<close>, and \<^verbatim>\<open>hasCandidateTimeConflict\<close>,
  written to keep the candidate from being double-booked, lets the second one pass: it
  reads 23:30 as minute 1410 and the end 00:00 as minute 0, and 1410 is not below
  0 + 30.
\<close>

theorem candidate_double_booked:
  "success (findOptimalSchedule plainEnv laterInterviewersRequest noOptions) \<and>
   individual_interviews (findOptimalSchedule plainEnv laterInterviewersRequest noOptions) =
     Some [interviewOf ''i1'' ''2024-01-10'' ''23:30'' ''00:00'',
           interviewOf ''i2'' ''2024-01-10'' ''23:30'' ''00:00''] \<and>
   duration (mergeOptions laterInterviewersRequest noOptions) = 30 \<and>
   bufferOr15 (mergeOptions laterInterviewersRequest noOptions) = 30 \<and>
   minuteOfDay ''23:30'' = Num 1410 \<and> minuteOfDay ''00:00'' = Num 0 \<and>
   \<not> hasCandidateTimeConflict (window ''2024-01-10'' ''23:30'' ''00:00'')
       [window ''2024-01-10'' ''23:30'' ''00:00''] 30"
proof -
  have ivs: "individual_interviews (findOptimalSchedule plainEnv laterInterviewersRequest noOptions) =
     Some [interviewOf ''i1'' ''2024-01-10'' ''23:30'' ''00:00'',
           interviewOf ''i2'' ''2024-01-10'' ''23:30'' ''00:00'']"
    by code_simp
  have ok: "success (findOptimalSchedule plainEnv laterInterviewersRequest noOptions)"
    using ivs by (rule interviews_only_on_success)
  have opts: "duration (mergeOptions laterInterviewersRequest noOptions) = 30 \<and>
      bufferOr15 (mergeOptions laterInterviewersRequest noOptions) = 30"
    by code_simp
  have test: "minuteOfDay ''23:30'' = Num 1410 \<and> minuteOfDay ''00:00'' = Num 0 \<and>
      \<not> hasCandidateTimeConflict (window ''2024-01-10'' ''23:30'' ''00:00'')
          [window ''2024-01-10'' ''23:30'' ''00:00''] 30"
    by code_simp
  from ok ivs opts test show ?thesis by blast
qed

text \<open>
  C2. Claimed: every slot \<^verbatim>\<open>findTimeSlotOverlap\<close> returns lies inside the
  intersection of the two windows. For the windows 11:00-12:00 and 09:00-10:00 of one
  day the intersection is empty (the later start, 11:00, is after the earlier end,
  10:00), and \<^verbatim>\<open>timeDifference\<close> reads it as 1380 minutes that wrap past midnight:
  the function returns 41 slots of 30 minutes, from 23:30-00:00 to 09:30-10:00.
  When the windows do intersect the slots are as claimed
  (\<open>findTimeSlotOverlap_intersecting\<close>).
\<close>

theorem disjoint_windows_yield_slots:
  "js_gt (totalMinutes (maxTime (parseTime ''11:00'') (parseTime ''09:00'')))
         (totalMinutes (minTime (parseTime ''12:00'') (parseTime ''10:00''))) \<and>
   timeDifference (maxTime (parseTime ''11:00'') (parseTime ''09:00''))
     (minTime (parseTime ''12:00'') (parseTime ''10:00'')) = Num 1380 \<and>
   (case findTimeSlotOverlap (window ''2024-01-10'' ''11:00'' ''12:00'')
           (window ''2024-01-10'' ''09:00'' ''10:00'') 30 of
      Inl e \<Rightarrow> False
    | Inr slots \<Rightarrow>
        length slots = 41 \<and>
        hd slots = window ''2024-01-10'' ''23:30'' ''00:00'' \<and>
        last slots = window ''2024-01-10'' ''09:30'' ''10:00'')"
  by code_simp

text \<open>
  C3. The list the assigner returns is the interviews of the first pass followed by
  those of the second pass; the interviewers of each part appear in the order in which
  the input first shows them, the second part holds only interviewers the first pass left
  out, and no interviewer appears twice. (By \<open>second_pass_adds_nothing\<close> the second
  part is in fact always empty: a slot that is free in the second pass was already free
  when the first pass looked at it.)
\<close>

theorem output_in_encounter_order:
  assumes "findIndividualInterviews cand ints opts us = Inr res"
  shows "\<exists>first second.
      res = first @ second \<and>
      pass1 cand (interviewerMap ints) opts us (encounterOrder ints) ([], [])
        = Inr (first, map proposedSlot first) \<and>
      pass2 cand (interviewerMap ints) opts us
        (unscheduledInterviewerIds (encounterOrder ints) first) (first, map proposedSlot first)
        = Inr (res, map proposedSlot res) \<and>
      subseq (map interviewer_id first) (map Some (encounterOrder ints)) \<and>
      subseq (map interviewer_id second)
        (map Some (filter (\<lambda>i. Some i \<notin> set (map interviewer_id first)) (encounterOrder ints))) \<and>
      distinct (map interviewer_id res)"
proof -
  from assms obtain a1 u2 where
    p1: "pass1 cand (interviewerMap ints) opts us (map fst (interviewerMap ints)) ([], [])
       = Inr (a1, map proposedSlot a1)" and
    p2: "pass1 cand (interviewerMap ints) opts us
       (unscheduledInterviewerIds (map fst (interviewerMap ints)) a1) (a1, map proposedSlot a1)
       = Inr (res, u2)" and
    cf: "conflictFree (bufferOr15 opts) (map proposedSlot a1)"
    by (rule findIndividualInterviews_runs)
  let ?ids = "encounterOrder ints"
  let ?rest = "filter (\<lambda>i. Some i \<notin> set (map interviewer_id a1)) ?ids"
  from pass1_inv [OF p2 refl cf] have u2: "u2 = map proposedSlot res" by blast
  from p1 have q1: "pass1 cand (interviewerMap ints) opts us ?ids ([], [])
      = Inr (a1, map proposedSlot a1)"
    by (simp add: interviewerIds_encounterOrder)
  from p2 u2 have q2: "pass2 cand (interviewerMap ints) opts us
      (unscheduledInterviewerIds ?ids a1) (a1, map proposedSlot a1)
      = Inr (res, map proposedSlot res)"
    by (simp add: interviewerIds_encounterOrder pass2_eq_pass1)
  from pass1_ids [OF p1] have s1: "subseq (map interviewer_id a1) (map Some ?ids)"
    by (simp add: interviewerIds_encounterOrder)
  from pass1_ids [OF p2] obtain second where
    r: "res = a1 @ second" and s2: "subseq (map interviewer_id second) (map Some ?rest)"
    by (auto simp: interviewerIds_encounterOrder unscheduledInterviewerIds_def)
  have d0: "distinct (map Some ?ids :: string option list)"
    by (simp add: distinct_map distinct_encounterOrder)
  from subseq_distinct_mono [OF s1 d0] have d1: "distinct (map interviewer_id a1)" .
  have "distinct (map Some ?rest :: string option list)"
    by (simp add: distinct_map distinct_encounterOrder)
  from subseq_distinct_mono [OF s2 this] have d2: "distinct (map interviewer_id second)" .
  have "set (map interviewer_id a1) \<inter> set (map interviewer_id second) = {}"
  proof (rule ccontr)
    assume "set (map interviewer_id a1) \<inter> set (map interviewer_id second) \<noteq> {}"
    then obtain x where x1: "x \<in> set (map interviewer_id a1)"
      and x2: "x \<in> set (map interviewer_id second)" by blast
    from subseq_set_mono [OF s2] x2 have "x \<in> set (map Some ?rest)" by blast
    then obtain i where "x = Some i" "Some i \<notin> set (map interviewer_id a1)" by auto
    with x1 show False by simp
  qed
  with d1 d2 r have "distinct (map interviewer_id res)" by simp
  with r q1 q2 s1 s2 show ?thesis by blast
qed

theorem output_in_encounter_order_witness:
  "\<exists>first second.
      [assign None ''i1'' (matchOf ''2024-01-10'' ''09:00'' ''09:30'' 30)] = first @ second \<and>
      pass1 oneCandidate (interviewerMap twoInterviewers) options30_15 None
        (encounterOrder twoInterviewers) ([], [])
        = Inr (first, map proposedSlot first) \<and>
      pass2 oneCandidate (interviewerMap twoInterviewers) options30_15 None
        (unscheduledInterviewerIds (encounterOrder twoInterviewers) first)
        (first, map proposedSlot first)
        = Inr ([assign None ''i1'' (matchOf ''2024-01-10'' ''09:00'' ''09:30'' 30)],
               map proposedSlot [assign None ''i1'' (matchOf ''2024-01-10'' ''09:00'' ''09:30'' 30)]) \<and>
      subseq (map interviewer_id first) (map Some (encounterOrder twoInterviewers)) \<and>
      subseq (map interviewer_id second)
        (map Some (filter (\<lambda>i. Some i \<notin> set (map interviewer_id first))
           (encounterOrder twoInterviewers))) \<and>
      distinct (map interviewer_id [assign None ''i1'' (matchOf ''2024-01-10'' ''09:00'' ''09:30'' 30)])"
  using output_in_encounter_order [OF twoInterviewers_run] .

text \<open>
  C4. The test of the first pass is the conflict test of the specification: a proposed
  slot conflicts with the tracked slots iff one of them has the same date and
  \<open>s1 < e2 + buffer\<close> and \<open>e1 > s2\<close>, the buffer extending only the end of the
  existing slot. The inline test of the second pass gives the same answer as the test of
  the first pass on the slots of the interviews assigned so far, with the buffer
  \<^verbatim>\<open>bufferTime || 15\<close> both passes use.
\<close>

theorem conflict_test_same_in_both_passes:
  "(hasCandidateTimeConflict proposed used buffer \<longleftrightarrow>
      (\<exists>existing\<in>set used.
         slot_date existing = slot_date proposed \<and>
         intervalsConflict (minuteOfDay (slot_start proposed)) (minuteOfDay (slot_end proposed))
           (minuteOfDay (slot_start existing)) (minuteOfDay (slot_end existing)) buffer)) \<and>
   conflictsWithScheduled allInterviews proposed options =
     hasCandidateTimeConflict proposed (map proposedSlot allInterviews) (bufferOr15 options)"
  using hasCandidateTimeConflict_iff [of proposed used buffer]
    pass2_check_is_pass1_check [of allInterviews proposed options]
  by (simp add: slotsConflict_def)

theorem conflict_test_same_in_both_passes_witness:
  "(\<exists>existing\<in>set [window ''2024-01-10'' ''09:00'' ''09:30''].
      slot_date existing = slot_date (window ''2024-01-10'' ''09:07'' ''09:37'') \<and>
      intervalsConflict (minuteOfDay (slot_start (window ''2024-01-10'' ''09:07'' ''09:37'')))
        (minuteOfDay (slot_end (window ''2024-01-10'' ''09:07'' ''09:37'')))
        (minuteOfDay (slot_start existing)) (minuteOfDay (slot_end existing)) 15) \<and>
   hasCandidateTimeConflict (window ''2024-01-10'' ''09:07'' ''09:37'')
     [window ''2024-01-10'' ''09:00'' ''09:30''] 15 \<and>
   conflictsWithScheduled [matchOf ''2024-01-10'' ''09:00'' ''09:30'' 30]
     (window ''2024-01-10'' ''09:07'' ''09:37'') options30_15"
proof -
  have a: "\<exists>existing\<in>set [window ''2024-01-10'' ''09:00'' ''09:30''].
      slot_date existing = slot_date (window ''2024-01-10'' ''09:07'' ''09:37'') \<and>
      intervalsConflict (minuteOfDay (slot_start (window ''2024-01-10'' ''09:07'' ''09:37'')))
        (minuteOfDay (slot_end (window ''2024-01-10'' ''09:07'' ''09:37'')))
        (minuteOfDay (slot_start existing)) (minuteOfDay (slot_end existing)) 15"
    by code_simp
  have b: "bufferOr15 options30_15 = 15"
    by (simp add: bufferOr15_def options30_15_def)
  have c: "map proposedSlot [matchOf ''2024-01-10'' ''09:00'' ''09:30'' 30] =
      [window ''2024-01-10'' ''09:00'' ''09:30'']"
    by (simp add: proposedSlot_def matchOf_def window_def)
  from conflict_test_same_in_both_passes
    [of "window ''2024-01-10'' ''09:07'' ''09:37''" "[window ''2024-01-10'' ''09:00'' ''09:30'']" 15
      "[matchOf ''2024-01-10'' ''09:00'' ''09:30'' 30]" options30_15] a b c
  show ?thesis by simp
qed

text \<open>
  C5. With two interviewers and the candidate all free 09:00-10:00 on 2024-01-10,
  duration 30 and buffer 15, the assigner returns one interview: interviewer 1 at
  09:00-09:30. The slots generated for interviewer 2 start at 09:00, 09:07, 09:14, 09:21
  and 09:28; none starts at 09:45 or later, so interviewer 2 is left out.
\<close>

theorem identical_windows_example:
  "findIndividualInterviews oneCandidate twoInterviewers options30_15 None =
     Inr [assign None ''i1'' (matchOf ''2024-01-10'' ''09:00'' ''09:30'' 30)] \<and>
   assign None ''i1'' (matchOf ''2024-01-10'' ''09:00'' ''09:30'' 30) =
     \<lparr>date = ''2024-01-10'', startTime = ''09:00'', endTime = ''09:30'', match_duration = 30,
      score = 100, reasons = [], interviewer_id = Some ''i1'',
      interviewer_name = Some ''Interviewer i1''\<rparr> \<and>
   findOverlappingSlots oneCandidate [twoInterviewers ! 1] options30_15 =
     Inr [matchOf ''2024-01-10'' ''09:00'' ''09:30'' 30, matchOf ''2024-01-10'' ''09:07'' ''09:37'' 30,
          matchOf ''2024-01-10'' ''09:14'' ''09:44'' 30, matchOf ''2024-01-10'' ''09:21'' ''09:51'' 30,
          matchOf ''2024-01-10'' ''09:28'' ''09:58'' 30]"
  using twoInterviewers_run secondInterviewer_slots
  by (simp add: assign_def matchOf_def interviewerName_def)

text \<open>
  C6. Claimed: when no interviewer has a feasible overlap with the candidate,
  \<^verbatim>\<open>findOptimalSchedule\<close> returns the failure "No overlapping time slots found
  between candidate and any interviewer." With the candidate free 09:00-10:00 and the only
  interviewer free 11:00-12:00 on 2024-01-10 there is no common minute (11:00 is after
  10:00), and the response is a success that schedules the interview at 23:30-00:00 of
  that date. (A body that throws does end in the fixed "Failed to generate schedule"
  response, \<open>thrown_error_is_caught\<close>, and an interviewer free on another day in the
  first failure, \<open>otherDay_run\<close>.)
\<close>

theorem infeasible_request_succeeds:
  "js_gt (minuteOfDay ''11:00'') (minuteOfDay ''10:00'') \<and>
   success (findOptimalSchedule plainEnv laterInterviewerRequest noOptions) \<and>
   individual_interviews (findOptimalSchedule plainEnv laterInterviewerRequest noOptions) =
     Some [interviewOf ''i1'' ''2024-01-10'' ''23:30'' ''00:00''] \<and>
   findOptimalSchedule plainEnv laterInterviewerRequest noOptions \<noteq> noOverlapResponse \<and>
   message noOverlapResponse =
     ''No overlapping time slots found between candidate and any interviewer.''"
proof -
  have ivs: "individual_interviews (findOptimalSchedule plainEnv laterInterviewerRequest noOptions) =
     Some [interviewOf ''i1'' ''2024-01-10'' ''23:30'' ''00:00'']"
    by code_simp
  have ok: "success (findOptimalSchedule plainEnv laterInterviewerRequest noOptions)"
    using ivs by (rule interviews_only_on_success)
  then have ne: "findOptimalSchedule plainEnv laterInterviewerRequest noOptions \<noteq> noOverlapResponse"
    by (auto simp: noOverlapResponse_def)
  have late: "js_gt (minuteOfDay ''11:00'') (minuteOfDay ''10:00'')"
    by code_simp
  have msg: "message noOverlapResponse =
     ''No overlapping time slots found between candidate and any interviewer.''"
    by (simp add: noOverlapResponse_def)
  from late ok ivs ne msg show ?thesis by blast
qed

text \<open>
  C7. The response is a function of the request, the options and the collaborators, and
  the clock enters only through the missing-date fallback: when no time slot of an
  interviewer has an empty date, the response is the same whatever day the clock shows.
\<close>

theorem clock_only_through_missing_dates:
  assumes "\<forall>a\<in>set (interviewer_availability request). \<forall>s\<in>set (time_slots a). slot_date s \<noteq> []"
  shows "findOptimalSchedule (ev\<lparr>todayIso := t\<rparr>) request options =
         findOptimalSchedule ev request options"
proof -
  have "tryBody (ev\<lparr>todayIso := t\<rparr>) request options = tryBody ev request options"
  proof (cases "findIndividualInterviews (candidate_availability request)
        (interviewer_availability request) (mergeOptions request options) (users request)")
    case (Inl e)
    then show ?thesis by (simp add: tryBody_def)
  next
    case (Inr res)
    have d: "\<forall>m\<in>set res. date m \<noteq> []"
      using findIndividualInterviews_dates [OF Inr] assms by fastforce
    show ?thesis
    proof (cases res)
      case Nil
      with Inr show ?thesis by (simp add: tryBody_def)
    next
      case (Cons p others)
      with d have p: "date p \<noteq> []" and o: "\<forall>m\<in>set others. date m \<noteq> []" by simp_all
      have "successResponse (ev\<lparr>todayIso := t\<rparr>) request (mergeOptions request options) st
            (p' # others) =
          successResponse ev request (mergeOptions request options) st (p' # others)"
        if "createScheduledTime ev p (timezone request) = Inr (p', st)" for p' st
      proof -
        from createScheduledTime_fst [OF that] p have "p' = p" by (simp add: fixDate_nonempty)
        with p o show ?thesis by (intro successResponse_today) simp
      qed
      with Inr Cons p show ?thesis
        by (auto simp: tryBody_def Let_def createScheduledTime_today split: sum.splits)
    qed
  qed
  then show ?thesis by (simp add: findOptimalSchedule_def)
qed

theorem clock_only_through_missing_dates_witness:
  "findOptimalSchedule (plainEnv\<lparr>todayIso := ''2031-05-06''\<rparr>) sameDayRequest noOptions =
   findOptimalSchedule plainEnv sameDayRequest noOptions"
  using clock_only_through_missing_dates [OF sameDay_dates] .

text \<open>
  C8. The range check of \<^verbatim>\<open>validateAvailability\<close> compares the hour fields only:
  the range error of slot \<open>j\<close> of availability \<open>i\<close> is among the errors iff that slot
  exists and its start hour is \<open>>=\<close> its end hour, as JavaScript compares them. The
  slot 2024-1-1, 09:00-10:00 is reported for its date format and for nothing else.
\<close>

theorem range_check_compares_hours_only:
  "(timeRangeError i j \<in> set (errors (validateAvailability avails)) \<longleftrightarrow>
      i < length avails \<and> j < length (time_slots (avails ! i)) \<and>
      js_ge (hours (parseTime (slot_start (time_slots (avails ! i) ! j))))
            (hours (parseTime (slot_end (time_slots (avails ! i) ! j))))) \<and>
   validateAvailability [\<lparr>user_id = u, time_slots = [window ''2024-1-1'' ''09:00'' ''10:00'']\<rparr>] =
     \<lparr>valid = False, errors = [''Invalid date format for availability 0 slot 0: 2024-1-1'']\<rparr>"
proof
  show "timeRangeError i j \<in> set (errors (validateAvailability avails)) \<longleftrightarrow>
      i < length avails \<and> j < length (time_slots (avails ! i)) \<and>
      js_ge (hours (parseTime (slot_start (time_slots (avails ! i) ! j))))
            (hours (parseTime (slot_end (time_slots (avails ! i) ! j))))"
  proof (cases "avails = []")
    case True
    then show ?thesis by (simp add: validateAvailability_def timeRangeError_def)
  next
    case False
    have "timeRangeError i j \<in> set (errors (validateAvailability avails)) \<longleftrightarrow>
        (\<exists>k < length avails. timeRangeError i j \<in> set (availErrors k (avails ! k)))"
      using False in_concat_enumerate [of "timeRangeError i j" availErrors avails]
      by (simp add: validateAvailability_def Let_def del: set_concat)
    then show ?thesis by (auto simp: timeRangeError_in_availErrors)
  qed
  have e: "enumerate 0 [x] = [(0, x)]" for x :: 'a by (simp add: enumerate_eq_zip)
  have "slotErrors 0 0 (window ''2024-1-1'' ''09:00'' ''10:00'') =
      [''Invalid date format for availability 0 slot 0: 2024-1-1'']"
    by code_simp
  then show "validateAvailability [\<lparr>user_id = u, time_slots = [window ''2024-1-1'' ''09:00'' ''10:00'']\<rparr>] =
     \<lparr>valid = False, errors = [''Invalid date format for availability 0 slot 0: 2024-1-1'']\<rparr>"
    by (simp add: validateAvailability_def availErrors_def Let_def e window_def)
qed

theorem range_check_compares_hours_only_witness:
  "js_ge (hours (parseTime ''09:45'')) (hours (parseTime ''09:50'')) \<and>
   timeRangeError 0 0 \<in> set (errors (validateAvailability
     [\<lparr>user_id = ''u'', time_slots = [window ''2024-01-10'' ''09:45'' ''09:50'']\<rparr>]))"
proof -
  have a: "js_ge (hours (parseTime ''09:45'')) (hours (parseTime ''09:50''))"
    by code_simp
  from range_check_compares_hours_only
    [of 0 0 "[\<lparr>user_id = ''u'', time_slots = [window ''2024-01-10'' ''09:45'' ''09:50'']\<rparr>]"] a
  show ?thesis by (simp add: window_def)
qed

text \<open>
  C9. \<^verbatim>\<open>formatTime\<close> is the exact, zero-padded inverse of \<^verbatim>\<open>parseTime\<close>: a
  string \<^verbatim>\<open>HH:MM\<close> with two-digit hours up to 23 and minutes up to 59 is parsed and
  formatted back to itself, and an hour in \<open>[0, 23]\<close> with a minute in \<open>[0, 59]\<close> is
  formatted to a string that parses back to the same hours and minutes and to
  \<open>60 * h + m\<close> total minutes.
\<close>

theorem formatTime_inverse_of_parseTime:
  "(isHHMM s \<longrightarrow> formatTime (parseTime s) = Inr s) \<and>
   (0 \<le> h \<and> h \<le> 23 \<and> 0 \<le> m \<and> m \<le> 59 \<longrightarrow>
      (\<exists>str. formatTime \<lparr>hours = Num h, minutes = Some (Num m), totalMinutes = t\<rparr> = Inr str \<and>
             parseTime str =
               \<lparr>hours = Num h, minutes = Some (Num m), totalMinutes = Num (60 * h + m)\<rparr>))"
proof (intro conjI impI)
  assume "isHHMM s"
  then obtain hh mm where b: "hh < 24" "mm < 60" and s: "s = hhmm hh mm"
    using isHHMM_hhmm by blast
  from b have "hh < 100" "mm < 100" by simp_all
  then show "formatTime (parseTime s) = Inr s"
    unfolding s by (simp add: parseTime_hhmm formatTime_hhmm)
next
  assume r: "0 \<le> h \<and> h \<le> 23 \<and> 0 \<le> m \<and> m \<le> 59"
  then have n: "nat h < 100" "nat m < 100" and i: "int (nat h) = h" "int (nat m) = m"
    by auto
  have "formatTime \<lparr>hours = Num h, minutes = Some (Num m), totalMinutes = t\<rparr>
      = Inr (hhmm (nat h) (nat m))"
    using formatTime_hhmm [OF n, of t] i by simp
  moreover have "parseTime (hhmm (nat h) (nat m)) =
      \<lparr>hours = Num h, minutes = Some (Num m), totalMinutes = Num (60 * h + m)\<rparr>"
    using parseTime_hhmm [OF n] i by (simp add: mult.commute)
  ultimately show "\<exists>str. formatTime \<lparr>hours = Num h, minutes = Some (Num m), totalMinutes = t\<rparr>
      = Inr str \<and> parseTime str =
        \<lparr>hours = Num h, minutes = Some (Num m), totalMinutes = Num (60 * h + m)\<rparr>"
    by blast
qed

theorem formatTime_inverse_of_parseTime_witness:
  "isHHMM ''09:05'' \<and> formatTime (parseTime ''09:05'') = Inr ''09:05'' \<and>
   (\<exists>str. formatTime \<lparr>hours = Num 23, minutes = Some (Num 59), totalMinutes = NaN\<rparr> = Inr str \<and>
      parseTime str = \<lparr>hours = Num 23, minutes = Some (Num 59), totalMinutes = Num 1439\<rparr>)"
proof -
  have a: "isHHMM ''09:05''" by (simp add: isHHMM_def digit_val_def)
  have b: "(0::int) \<le> 23 \<and> (23::int) \<le> 23 \<and> (0::int) \<le> 59 \<and> (59::int) \<le> 59" by simp
  from formatTime_inverse_of_parseTime [of "''09:05''" 23 59 NaN] a b
  show ?thesis by simp
qed

text \<open>
  C10. \<^verbatim>\<open>findOptimalSchedule\<close> does not write to its input. With the request's
  objects in a store, every object that was in the store before the call is the same
  after it, whatever the outcome; the request reads the same values after the call as
  before; and the response is the one the value model gives. The writes of the
  missing-date fallback go to the interview objects the engine has allocated.
\<close>

theorem request_unchanged:
  "take (length h) (snd (findOptimalSchedule_s ev r options h)) = h \<and>
   derefRequest (snd (findOptimalSchedule_s ev r options h)) r = derefRequest h r \<and>
   fst (findOptimalSchedule_s ev r options h) = findOptimalSchedule ev (derefRequest h r) options"
proof -
  from findOptimalSchedule_s_run [of ev r options h] obtain l' where
    "findOptimalSchedule_s ev r options h =
       (findOptimalSchedule ev (derefRequest h r) options, h @ map MatchObj l')" by blast
  then show ?thesis by (simp add: derefRequest_ext)
qed

theorem request_unchanged_witness:
  "snd (findOptimalSchedule_s plainEnv missingDateRefs noOptions missingDateStore) =
     missingDateStore @
     [MatchObj (assign None ''i1'' (matchOf ''2024-01-10'' ''09:00'' ''09:30'' 30)),
      MatchObj (assign None ''i2'' (matchOf ''2024-01-10'' ''09:00'' ''09:30'' 30))] \<and>
   take (length missingDateStore)
     (snd (findOptimalSchedule_s plainEnv missingDateRefs noOptions missingDateStore)) =
     missingDateStore \<and>
   derefRequest missingDateStore missingDateRefs = missingDateRequest"
proof -
  have a: "snd (findOptimalSchedule_s plainEnv missingDateRefs noOptions missingDateStore) =
     missingDateStore @
     [MatchObj (assign None ''i1'' (matchOf ''2024-01-10'' ''09:00'' ''09:30'' 30)),
      MatchObj (assign None ''i2'' (matchOf ''2024-01-10'' ''09:00'' ''09:30'' 30))]"
    by code_simp
  have b: "derefRequest missingDateStore missingDateRefs = missingDateRequest"
    by code_simp
  from request_unchanged [of missingDateStore plainEnv missingDateRefs noOptions] a b
  show ?thesis by simp
qed

end
